theory Spec2Isabelle
  imports Complex_Main "HOL-Library.Multiset"
begin

text \<open>
  A shallow embedding of the query pipeline of the repository: the orchestrator
  (\<open>server/orchestrator.ts\<close>), the analytics agent (\<open>server/agents/analytics-agent.ts\<close>),
  the SEO agent with its \<open>executeDataOperations\<close>, and the gateway client
  \<open>LiteLLMClient.chat\<close>.  Pure code is a function; a \<open>throw\<close> is the value \<open>Inl message\<close>;
  every call that leaves the process (the gateway, the GA4 client, the spreadsheet) is a
  parameter of the model, and a log records the calls in order.  \<open>log(...)\<close> only
  prints and is left out.
\<close>

section \<open>JavaScript values and coercions used by the agents\<close>

text \<open>
  The tabular agent works on untyped data: spreadsheet cells (strings, or \<open>undefined\<close> for
  a missing cell) and the values a JSON plan carries (null, booleans, numbers, strings).
  Numbers are IEEE doubles in the program.  Every double is \<open>NaN\<close>, an infinity or a
  rational, and the code only compares numbers and tests them against zero, so a number
  is modelled by that value (negative zero is the rational 0: no operation used here
  tells the two zeros apart).
\<close>

datatype jsnum = NaN | NegInf | Fin rat | PosInf

datatype jsval = JUndefined | JNull | JBool bool | JNum jsnum | JStr string

text \<open>
  A row is the object \<open>loadSpreadsheetData\<close> builds: one property per header, holding
  the cell's string; a header whose cell is missing is left out of the list.  A result
  record of \<open>executeDataOperations\<close> is a row, or after grouping the object
  \<open>{[plan.groupBy]: key, count: items.length, items: items}\<close>.
\<close>

type_synonym row = "(string \<times> string) list"

datatype out_record = Row row | Group string string nat "row list"

text \<open>
  The conversions between strings and numbers, the text an inherited member of
  \<open>Object.prototype\<close> coerces to, and \<open>Array.prototype.sort\<close> belong to the language
  runtime and not to the repository.  They are parameters of the model:
  \<open>arraySort js cmp xs\<close> is what \<open>xs.sort(cmp)\<close> leaves in the array of result records.
\<close>

record js_builtins =
  StringToNumber :: "string \<Rightarrow> jsnum"    \<comment> \<open>\<open>Number(s)\<close> for a string \<open>s\<close>\<close>
  parseFloatString :: "string \<Rightarrow> jsnum"  \<comment> \<open>\<open>parseFloat(s)\<close> for a string \<open>s\<close>\<close>
  NumberToString :: "jsnum \<Rightarrow> string"    \<comment> \<open>\<open>String(n)\<close> for a number \<open>n\<close>\<close>
  inheritedText :: "string \<Rightarrow> string"    \<comment> \<open>\<open>String({}[k])\<close> for an inherited name \<open>k\<close>\<close>
  arraySort :: "(out_record \<Rightarrow> out_record \<Rightarrow> int) \<Rightarrow> out_record list \<Rightarrow> out_record list"

text \<open>The names every plain object inherits (ECMAScript, with its Annex B).\<close>

definition objectPrototypeKeys :: "string list" where
  "objectPrototypeKeys =
     [''constructor'', ''hasOwnProperty'', ''isPrototypeOf'', ''propertyIsEnumerable'',
      ''toLocaleString'', ''toString'', ''valueOf'', ''__proto__'', ''__defineGetter__'',
      ''__defineSetter__'', ''__lookupGetter__'', ''__lookupSetter__'']"

subsection \<open>Numbers\<close>

fun numLess :: "jsnum \<Rightarrow> jsnum \<Rightarrow> bool" where
  "numLess NaN _ = False"
| "numLess _ NaN = False"
| "numLess NegInf NegInf = False"
| "numLess NegInf _ = True"
| "numLess (Fin a) (Fin b) = (a < b)"
| "numLess (Fin a) PosInf = True"
| "numLess (Fin a) NegInf = False"
| "numLess PosInf _ = False"

fun numEq :: "jsnum \<Rightarrow> jsnum \<Rightarrow> bool" where
  "numEq NaN _ = False"
| "numEq _ NaN = False"
| "numEq a b = (a = b)"

subsection \<open>Strings\<close>

text \<open>
  A string is a list of code units; the model has the code units below 256.
  \<open>toLowerCase\<close> maps \<open>A-Z\<close> and the Latin-1 capitals to their small letters.
\<close>

definition lowerChar :: "char \<Rightarrow> char" where
  "lowerChar c =
     (let n = (of_char c :: nat) in
      if (65 \<le> n \<and> n \<le> 90) \<or> (192 \<le> n \<and> n \<le> 222 \<and> n \<noteq> 215)
      then char_of (n + 32) else c)"

definition toLowerCase :: "string \<Rightarrow> string" where
  "toLowerCase s = map lowerChar s"

fun startsWith :: "string \<Rightarrow> string \<Rightarrow> bool" where
  "startsWith _ [] = True"
| "startsWith [] (_ # _) = False"
| "startsWith (x # xs) (y # ys) = (x = y \<and> startsWith xs ys)"

text \<open>\<open>strIncludes hay needle\<close> is \<open>hay.includes(needle)\<close>.\<close>

fun strIncludes :: "string \<Rightarrow> string \<Rightarrow> bool" where
  "strIncludes [] needle = (needle = [])"
| "strIncludes (h # hs) needle = (startsWith (h # hs) needle \<or> strIncludes hs needle)"

text \<open>The relational operators compare two strings by code units.\<close>

fun strLess :: "string \<Rightarrow> string \<Rightarrow> bool" where
  "strLess [] [] = False"
| "strLess [] (_ # _) = True"
| "strLess (_ # _) [] = False"
| "strLess (x # xs) (y # ys) =
     ((of_char x :: nat) < of_char y \<or> (x = y \<and> strLess xs ys))"

subsection \<open>Coercions\<close>

definition ToString :: "js_builtins \<Rightarrow> jsval \<Rightarrow> string" where
  "ToString js v =
     (case v of
        JUndefined \<Rightarrow> ''undefined''
      | JNull \<Rightarrow> ''null''
      | JBool b \<Rightarrow> (if b then ''true'' else ''false'')
      | JNum n \<Rightarrow> NumberToString js n
      | JStr s \<Rightarrow> s)"

definition boolToNumber :: "bool \<Rightarrow> jsnum" where
  "boolToNumber b = (if b then Fin 1 else Fin 0)"

definition ToNumber :: "js_builtins \<Rightarrow> jsval \<Rightarrow> jsnum" where
  "ToNumber js v =
     (case v of
        JUndefined \<Rightarrow> NaN
      | JNull \<Rightarrow> Fin 0
      | JBool b \<Rightarrow> boolToNumber b
      | JNum n \<Rightarrow> n
      | JStr s \<Rightarrow> StringToNumber js s)"

text \<open>
  \<open>parseFloat(v)\<close> parses the string of \<open>v\<close>; the strings \<open>undefined\<close>, \<open>null\<close>,
  \<open>true\<close> and \<open>false\<close> start with no number.
\<close>

definition parseFloat :: "js_builtins \<Rightarrow> jsval \<Rightarrow> jsnum" where
  "parseFloat js v =
     (case v of
        JStr s \<Rightarrow> parseFloatString js s
      | JNum n \<Rightarrow> parseFloatString js (NumberToString js n)
      | _ \<Rightarrow> NaN)"

definition truthy :: "jsval \<Rightarrow> bool" where
  "truthy v =
     (case v of
        JUndefined \<Rightarrow> False
      | JNull \<Rightarrow> False
      | JBool b \<Rightarrow> b
      | JNum n \<Rightarrow> n \<noteq> NaN \<and> n \<noteq> Fin 0
      | JStr s \<Rightarrow> s \<noteq> [])"

text \<open>Loose equality \<open>a == b\<close> on primitive values.\<close>

fun looseEq :: "js_builtins \<Rightarrow> jsval \<Rightarrow> jsval \<Rightarrow> bool" where
  "looseEq js JUndefined JUndefined = True"
| "looseEq js JUndefined JNull = True"
| "looseEq js JNull JUndefined = True"
| "looseEq js JNull JNull = True"
| "looseEq js (JNum x) (JNum y) = numEq x y"
| "looseEq js (JStr s) (JStr t) = (s = t)"
| "looseEq js (JBool a) (JBool b) = (a = b)"
| "looseEq js (JNum x) (JStr s) = numEq x (StringToNumber js s)"
| "looseEq js (JStr s) (JNum x) = numEq (StringToNumber js s) x"
| "looseEq js (JBool b) (JNum y) = numEq (boolToNumber b) y"
| "looseEq js (JNum x) (JBool b) = numEq x (boolToNumber b)"
| "looseEq js (JBool b) (JStr s) = numEq (boolToNumber b) (StringToNumber js s)"
| "looseEq js (JStr s) (JBool b) = numEq (StringToNumber js s) (boolToNumber b)"
| "looseEq js _ _ = False"

text \<open>
  \<open>a > b\<close>: two strings are compared as strings, anything else as numbers, and a
  comparison with \<open>NaN\<close> is false.  \<open>a < b\<close> is \<open>b > a\<close>.
\<close>

fun jsGreater :: "js_builtins \<Rightarrow> jsval \<Rightarrow> jsval \<Rightarrow> bool" where
  "jsGreater js (JStr s) (JStr t) = strLess t s"
| "jsGreater js a b = numLess (ToNumber js b) (ToNumber js a)"

definition jsLess :: "js_builtins \<Rightarrow> jsval \<Rightarrow> jsval \<Rightarrow> bool" where
  "jsLess js a b = jsGreater js b a"

section \<open>The tabular agent: executeDataOperations\<close>

text \<open>
  \<open>row[c]\<close> is the cell, or what the row inherits under the name \<open>c\<close>, or
  \<open>undefined\<close>.  An inherited member is a function or an object; every operation below
  coerces it to its text, so the model returns that text.
\<close>

definition cell :: "js_builtins \<Rightarrow> row \<Rightarrow> string \<Rightarrow> jsval" where
  "cell js r c =
     (case map_of r c of
        Some s \<Rightarrow> JStr s
      | None \<Rightarrow> if c \<in> set objectPrototypeKeys then JStr (inheritedText js c) else JUndefined)"

record filter_clause =
  column :: string
  operator :: string
  fvalue :: jsval

record sort_spec =
  sortColumn :: string
  desc :: bool

record data_plan =
  filters :: "filter_clause list option"
  groupBy :: "string option"
  sortBy :: "sort_spec option"
  limit :: jsval

text \<open>The callback of \<open>result.filter\<close>: the \<open>switch\<close> on the clause's operator.\<close>

definition filterRow :: "js_builtins \<Rightarrow> filter_clause \<Rightarrow> row \<Rightarrow> bool" where
  "filterRow js f r =
     (let v = cell js r (column f) in
      if operator f = ''=='' then looseEq js v (fvalue f)
      else if operator f = ''!='' then \<not> looseEq js v (fvalue f)
      else if operator f = ''>'' then numLess (parseFloat js (fvalue f)) (parseFloat js v)
      else if operator f = ''<'' then numLess (parseFloat js v) (parseFloat js (fvalue f))
      else if operator f = ''contains''
        then strIncludes (toLowerCase (ToString js v)) (toLowerCase (ToString js (fvalue f)))
      else True)"

text \<open>The \<open>for\<close> loop over the clauses: each one filters what the previous ones left.\<close>

fun filterLoop :: "js_builtins \<Rightarrow> filter_clause list \<Rightarrow> row list \<Rightarrow> row list" where
  "filterLoop js [] result = result"
| "filterLoop js (f # fs) result = filterLoop js fs (filter (filterRow js f) result)"

definition applyFilters :: "js_builtins \<Rightarrow> data_plan \<Rightarrow> row list \<Rightarrow> row list" where
  "applyFilters js plan result =
     (case filters plan of
        None \<Rightarrow> result
      | Some fs \<Rightarrow> if length fs > 0 then filterLoop js fs result else result)"

subsection \<open>Grouping\<close>

fun joinStrings :: "string \<Rightarrow> string list \<Rightarrow> string" where
  "joinStrings sep [] = []"
| "joinStrings sep [x] = x"
| "joinStrings sep (x # y # ys) = x @ sep @ joinStrings sep (y # ys)"

definition digitChar :: "nat \<Rightarrow> char" where
  "digitChar d = char_of (48 + d)"

fun natToString :: "nat \<Rightarrow> string" where
  "natToString n = (if n < 10 then [digitChar n] else natToString (n div 10) @ [digitChar (n mod 10)])"

declare natToString.simps [simp del]

definition isDigit :: "char \<Rightarrow> bool" where
  "isDigit c = (48 \<le> (of_char c :: nat) \<and> (of_char c :: nat) \<le> 57)"

definition digitsValue :: "string \<Rightarrow> int" where
  "digitsValue s = foldl (\<lambda>acc c. 10 * acc + ((of_char c :: int) - 48)) 0 s"

text \<open>
  A property name is an array index when it is the canonical decimal string of an
  integer from 0 to \<open>2^32 - 2\<close>.  An object lists such names first, in ascending order,
  and every other name after them in the order of creation.
\<close>

definition isArrayIndex :: "string \<Rightarrow> bool" where
  "isArrayIndex k =
     (k \<noteq> [] \<and> list_all isDigit k \<and> (k = ''0'' \<or> hd k \<noteq> CHR ''0'') \<and>
      digitsValue k \<le> 4294967294)"

definition objectEntries :: "(string \<times> 'a) list \<Rightarrow> (string \<times> 'a) list" where
  "objectEntries props =
     sort_key (\<lambda>p. digitsValue (fst p)) (filter (\<lambda>p. isArrayIndex (fst p)) props)
     @ filter (\<lambda>p. \<not> isArrayIndex (fst p)) props"

text \<open>
  \<open>groups[key].push(row)\<close>, after \<open>groups[key] = []\<close> when the name is new.  The
  properties of \<open>groups\<close> are kept in their order of creation.
\<close>

fun pushGroup :: "string \<Rightarrow> row \<Rightarrow> (string \<times> row list) list \<Rightarrow> (string \<times> row list) list" where
  "pushGroup key r [] = [(key, [r])]"
| "pushGroup key r ((k, rs) # gs) =
     (if k = key then (k, rs @ [r]) # gs else (k, rs) # pushGroup key r gs)"

text \<open>
  The \<open>forEach\<close> over the rows.  \<open>groups\<close> starts as \<open>{}\<close>, so under an inherited name
  \<open>groups[key]\<close> is already truthy, no array is created, and the call of \<open>push\<close> on the
  inherited member raises a TypeError.
\<close>

fun groupLoop ::
  "js_builtins \<Rightarrow> string \<Rightarrow> row list \<Rightarrow> (string \<times> row list) list \<Rightarrow> string + (string \<times> row list) list"
where
  "groupLoop js g [] groups = Inr groups"
| "groupLoop js g (r # rs) groups =
     (let key = ToString js (cell js r g) in
      if key \<in> set objectPrototypeKeys then Inl ''groups[key].push is not a function''
      else groupLoop js g rs (pushGroup key r groups))"

definition applyGrouping :: "js_builtins \<Rightarrow> data_plan \<Rightarrow> row list \<Rightarrow> string + out_record list" where
  "applyGrouping js plan result =
     (case groupBy plan of
        None \<Rightarrow> Inr (map Row result)
      | Some g \<Rightarrow>
          if g = [] then Inr (map Row result)
          else (case groupLoop js g result [] of
                  Inl e \<Rightarrow> Inl e
                | Inr groups \<Rightarrow>
                    Inr (map (\<lambda>(key, its). Group g key (length its) its) (objectEntries groups))))"

subsection \<open>Sorting\<close>

text \<open>
  \<open>a[c]\<close> for a result record, as the relational operators see it.  In a group record
  the later properties \<open>count\<close> and \<open>items\<close> win over a grouping column of the same
  name; the array \<open>items\<close> compares as its text, one \<open>[object Object]\<close> per row (a sheet
  with a column named \<open>toString\<close> aside).
\<close>

definition recordGet :: "js_builtins \<Rightarrow> out_record \<Rightarrow> string \<Rightarrow> jsval" where
  "recordGet js a c =
     (case a of
        Row r \<Rightarrow> cell js r c
      | Group g key n its \<Rightarrow>
          if c = ''items'' then JStr (joinStrings '','' (map (\<lambda>_. ''[object Object]'') its))
          else if c = ''count'' then JNum (Fin (of_nat n))
          else if c = g then JStr key
          else if c \<in> set objectPrototypeKeys then JStr (inheritedText js c)
          else JUndefined)"

text \<open>The comparator handed to \<open>result.sort\<close>.\<close>

definition comparator :: "js_builtins \<Rightarrow> sort_spec \<Rightarrow> out_record \<Rightarrow> out_record \<Rightarrow> int" where
  "comparator js sb a b =
     (let aVal = recordGet js a (sortColumn sb);
          bVal = recordGet js b (sortColumn sb);
          comparison = (if jsGreater js aVal bVal then 1 else if jsLess js aVal bVal then - 1 else 0)
      in if desc sb then - comparison else comparison)"

text \<open>\<open>result.sort(comparator)\<close>, by the runtime's sort.\<close>

definition applySorting :: "js_builtins \<Rightarrow> data_plan \<Rightarrow> out_record list \<Rightarrow> out_record list" where
  "applySorting js plan result =
     (case sortBy plan of
        None \<Rightarrow> result
      | Some sb \<Rightarrow> arraySort js (comparator js sb) result)"

text \<open>
  What ECMAScript says of \<open>Array.prototype.sort\<close>.  A comparator is consistent for the
  values of an array when, on them, it ties every value with itself, its ties are
  symmetric and transitive, and its \<open><\<close> and its \<open>>\<close> are transitive.  For a consistent
  comparator the result must hold the same elements, no element may stand before one
  that the comparator puts before it, and elements that tie must keep their order.  For
  any other comparator the order is left to the engine.
\<close>

definition consistentComparator :: "('a \<Rightarrow> 'a \<Rightarrow> int) \<Rightarrow> 'a list \<Rightarrow> bool" where
  "consistentComparator cmp xs =
     ((\<forall>a\<in>set xs. cmp a a = 0)
      \<and> (\<forall>a\<in>set xs. \<forall>b\<in>set xs. cmp a b = 0 \<longrightarrow> cmp b a = 0)
      \<and> (\<forall>a\<in>set xs. \<forall>b\<in>set xs. \<forall>c\<in>set xs. cmp a b = 0 \<longrightarrow> cmp b c = 0 \<longrightarrow> cmp a c = 0)
      \<and> (\<forall>a\<in>set xs. \<forall>b\<in>set xs. \<forall>c\<in>set xs. cmp a b < 0 \<longrightarrow> cmp b c < 0 \<longrightarrow> cmp a c < 0)
      \<and> (\<forall>a\<in>set xs. \<forall>b\<in>set xs. \<forall>c\<in>set xs. cmp a b > 0 \<longrightarrow> cmp b c > 0 \<longrightarrow> cmp a c > 0))"

definition sortedStable :: "('a \<Rightarrow> 'a \<Rightarrow> int) \<Rightarrow> 'a list \<Rightarrow> 'a list \<Rightarrow> bool" where
  "sortedStable cmp xs ys =
     (mset ys = mset xs
      \<and> sorted_wrt (\<lambda>a b. \<not> cmp b a < 0) ys
      \<and> (\<forall>a\<in>set xs. filter (\<lambda>r. cmp a r = 0) ys = filter (\<lambda>r. cmp a r = 0) xs))"

text \<open>
  The arrangement these conditions fix for a consistent comparator: each element is
  inserted before the first element that it does not exceed.
\<close>

fun insertBy :: "('a \<Rightarrow> 'a \<Rightarrow> int) \<Rightarrow> 'a \<Rightarrow> 'a list \<Rightarrow> 'a list" where
  "insertBy cmp x [] = [x]"
| "insertBy cmp x (y # ys) = (if cmp x y \<le> 0 then x # y # ys else y # insertBy cmp x ys)"

fun insertionSort :: "('a \<Rightarrow> 'a \<Rightarrow> int) \<Rightarrow> 'a list \<Rightarrow> 'a list" where
  "insertionSort cmp [] = []"
| "insertionSort cmp (x # xs) = insertBy cmp x (insertionSort cmp xs)"

subsection \<open>Limit\<close>

definition truncateNumber :: "rat \<Rightarrow> int" where
  "truncateNumber q = (if q < 0 then \<lceil>q\<rceil> else \<lfloor>q\<rfloor>)"

text \<open>
  The end index of \<open>slice(0, end)\<close> on an array of \<open>len\<close> elements: \<open>end\<close> is
  truncated to an integer, \<open>NaN\<close> counts as 0, and a negative end counts from the back.
\<close>

definition sliceEnd :: "jsnum \<Rightarrow> nat \<Rightarrow> nat" where
  "sliceEnd e len =
     (case e of
        NaN \<Rightarrow> 0
      | NegInf \<Rightarrow> 0
      | PosInf \<Rightarrow> len
      | Fin q \<Rightarrow>
          (let k = truncateNumber q in
           if k < 0 then nat (max (int len + k) 0) else min (nat k) len))"

definition applyLimit :: "js_builtins \<Rightarrow> data_plan \<Rightarrow> out_record list \<Rightarrow> out_record list" where
  "applyLimit js plan result =
     (if truthy (limit plan)
      then take (sliceEnd (ToNumber js (limit plan)) (length result)) result
      else result)"

subsection \<open>The whole operation\<close>

record exec_output =
  plan :: data_plan
  resultCount :: nat
  results :: "out_record list"

definition executeDataOperations :: "js_builtins \<Rightarrow> row list \<Rightarrow> data_plan \<Rightarrow> string + exec_output" where
  "executeDataOperations js data p =
     (case applyGrouping js p (applyFilters js p data) of
        Inl e \<Rightarrow> Inl e
      | Inr grouped \<Rightarrow>
          (let result = applyLimit js p (applySorting js p grouped)
           in Inr \<lparr>plan = p, resultCount = length result, results = result\<rparr>))"


section \<open>The language-model gateway: LiteLLMClient.chat\<close>

definition MAX_RETRIES :: nat where
  "MAX_RETRIES = 3"

definition INITIAL_BACKOFF :: nat where
  "INITIAL_BACKOFF = 1000"

text \<open>
  What one \<open>fetch\<close> of the gateway can do: reject with an error, or resolve to a
  response.  Of a response the code reads the status, the text (when the status is an
  error) and the decoded body: \<open>bodyJson\<close> is \<open>Inl m\<close> when decoding the body or reading
  \<open>data.choices[0]\<close> throws an error with message \<open>m\<close>, and otherwise the content of
  the first choice, \<open>None\<close> when the optional chain finds none.
\<close>

record http_response =
  status :: nat
  bodyText :: string
  bodyJson :: "string + string option"

datatype fetch_outcome = Rejects string | Resolves http_response

definition responseOk :: "http_response \<Rightarrow> bool" where
  "responseOk r = (200 \<le> status r \<and> status r \<le> 299)"

datatype attempt_result = Returned string | RateLimited | Thrown string

text \<open>The body of the \<open>try\<close> block, for one attempt.\<close>

definition tryAttempt :: "fetch_outcome \<Rightarrow> attempt_result" where
  "tryAttempt out =
     (case out of
        Rejects m \<Rightarrow> Thrown m
      | Resolves r \<Rightarrow>
          if status r = 429 then RateLimited
          else if \<not> responseOk r
            then Thrown (''LiteLLM API error ('' @ natToString (status r) @ ''): '' @ bodyText r)
          else (case bodyJson r of
                  Inl m \<Rightarrow> Thrown m
                | Inr None \<Rightarrow> Returned []
                | Inr (Some c) \<Rightarrow> Returned c))"

definition backoffTime :: "nat \<Rightarrow> nat" where
  "backoffTime attempt = INITIAL_BACKOFF * 2 ^ attempt"

text \<open>
  A run of \<open>chat\<close>: what it returns or the message of the error it throws, the number
  of calls of \<open>fetch\<close>, and the delays it waited, in milliseconds.
\<close>

record chat_run =
  outcome :: "string + string"
  attempts :: nat
  delays :: "nat list"

text \<open>
  The retry loop.  \<open>fetch i\<close> is the outcome of the call of \<open>fetch\<close> in attempt \<open>i\<close>;
  \<open>lastError\<close> holds the message of the last error caught, \<open>None\<close> while it is \<open>null\<close>.
\<close>

function chatLoop :: "(nat \<Rightarrow> fetch_outcome) \<Rightarrow> nat \<Rightarrow> string option \<Rightarrow> nat list \<Rightarrow> chat_run" where
  "chatLoop fetch attempt lastError slept =
     (if attempt < MAX_RETRIES then
        (case tryAttempt (fetch attempt) of
           Returned text \<Rightarrow> \<lparr>outcome = Inr text, attempts = attempt + 1, delays = slept\<rparr>
         | RateLimited \<Rightarrow> chatLoop fetch (attempt + 1) lastError (slept @ [backoffTime attempt])
         | Thrown m \<Rightarrow>
             chatLoop fetch (attempt + 1) (Some m)
               (if attempt < MAX_RETRIES - 1 then slept @ [backoffTime attempt] else slept))
      else
        \<lparr>outcome = Inl (''LiteLLM failed after '' @ natToString MAX_RETRIES @ '' attempts: ''
                        @ (case lastError of None \<Rightarrow> ''undefined'' | Some m \<Rightarrow> m)),
         attempts = attempt, delays = slept\<rparr>)"
  by pat_completeness auto
termination
  by (relation "measure (\<lambda>(fetch, attempt, lastError, slept). MAX_RETRIES - attempt)") auto

declare chatLoop.simps [simp del]

definition gatewayChat :: "(nat \<Rightarrow> fetch_outcome) \<Rightarrow> chat_run" where
  "gatewayChat fetch = chatLoop fetch 0 None []"


section \<open>The agents and their collaborators\<close>

text \<open>A field of a decoded JSON object: missing, \<open>null\<close>, or a value.\<close>

datatype 'a json_field = Absent | JsonNull | Value 'a

record reporting_plan =
  metrics :: "string list json_field"
  dimensions :: "string list json_field"
  dateRanges :: string
  orderBy :: string
  reportLimit :: string

text \<open>
  Every prompt is a fixed text around the values it embeds; a prompt is modelled by its
  kind and those values.
\<close>

datatype prompt =
    IntentPrompt string bool
  | AggregatePrompt string string string
  | ReportingPlanPrompt string
  | GA4ExplanationPrompt string string string string string
  | DataPlanPrompt string "string list" "row list"
  | SEOExplanationPrompt string exec_output

text \<open>The calls that leave the process, in the order they are made.\<close>

datatype event = ChatCall prompt | RunReport string reporting_plan | LoadSheet string

text \<open>
  The collaborators of one query.  A call that throws is \<open>Inl\<close> of the error's message.
  \<open>chat\<close> is \<open>litellm.chat\<close> as a whole, \<open>parseReportingPlan\<close> and \<open>parseDataPlan\<close>
  are \<open>JSON.parse\<close> read at the shape the prompt asks for, \<open>runReport\<close> is the GA4
  client, \<open>credentialsLoaded\<close> tells whether \<open>initializeAuth\<close> succeeded, and
  \<open>SEO_SPREADSHEET_ID\<close> is the variable of the process environment.
\<close>

record env =
  runtime :: js_builtins
  chat :: "prompt \<Rightarrow> string + string"
  parseReportingPlan :: "string \<Rightarrow> string + reporting_plan"
  parseDataPlan :: "string \<Rightarrow> string + data_plan"
  runReport :: "string \<Rightarrow> reporting_plan \<Rightarrow> string + string"
  credentialsLoaded :: bool
  SEO_SPREADSHEET_ID :: "string option"
  loadSheet :: "string \<Rightarrow> string + row list"

type_synonym 'a step = "(string + 'a) \<times> event list"

text \<open>Sequencing inside a \<open>try\<close> block: the first error ends the block.\<close>

definition andThen :: "'a step \<Rightarrow> ('a \<Rightarrow> 'b step) \<Rightarrow> 'b step" where
  "andThen m f =
     (case m of
        (Inl e, calls) \<Rightarrow> (Inl e, calls)
      | (Inr a, calls) \<Rightarrow> (case f a of (r, later) \<Rightarrow> (r, calls @ later)))"

definition callChat :: "env \<Rightarrow> prompt \<Rightarrow> string step" where
  "callChat w p = (chat w p, [ChatCall p])"

text \<open>
  \<open>response.match(/\{[\s\S]*\}/)\<close>: the text from the first opening brace to the last
  closing brace after it.
\<close>

definition matchBraces :: "string \<Rightarrow> string option" where
  "matchBraces s =
     (let rest = dropWhile (\<lambda>c. c \<noteq> CHR ''{'') s in
      if rest = [] then None
      else (let back = dropWhile (\<lambda>c. c \<noteq> CHR ''}'') (rev (tl rest)) in
            if back = [] then None else Some (CHR ''{'' # rev back)))"

record 'd agent_result =
  success :: bool
  data :: "'d option"
  explanation :: string
  error :: "string option"

subsection \<open>The analytics agent\<close>

definition VALID_METRICS :: "string list" where
  "VALID_METRICS =
     [''activeUsers'', ''sessions'', ''screenPageViews'', ''eventCount'', ''conversions'',
      ''totalRevenue'', ''averageSessionDuration'', ''bounceRate'', ''engagementRate'',
      ''newUsers'', ''userEngagementDuration'', ''sessionConversionRate'']"

definition VALID_DIMENSIONS :: "string list" where
  "VALID_DIMENSIONS =
     [''date'', ''pagePath'', ''pageTitle'', ''country'', ''city'', ''deviceCategory'',
      ''browser'', ''operatingSystem'', ''sessionSource'', ''sessionMedium'',
      ''sessionCampaignName'', ''landingPage'', ''eventName'']"

definition inferReportingPlan :: "env \<Rightarrow> string \<Rightarrow> reporting_plan step" where
  "inferReportingPlan w q =
     andThen (callChat w (ReportingPlanPrompt q)) (\<lambda>response.
       case matchBraces response of
         None \<Rightarrow> (Inl ''Failed to parse reporting plan from LLM response'', [])
       | Some json \<Rightarrow> (parseReportingPlan w json, []))"

text \<open>One \<open>for\<close> loop of \<open>validateFields\<close>: the first name outside the list throws.\<close>

fun validateLoop :: "string \<Rightarrow> string list \<Rightarrow> string list \<Rightarrow> string + unit" where
  "validateLoop kind allowed [] = Inr ()"
| "validateLoop kind allowed (x # xs) =
     (if x \<notin> set allowed
      then Inl (''Invalid '' @ kind @ '': '' @ x @ ''. Must be one of: '' @ joinStrings '', '' allowed)
      else validateLoop kind allowed xs)"

definition orEmpty :: "'a list option \<Rightarrow> 'a list" where
  "orEmpty xs = (case xs of None \<Rightarrow> [] | Some ys \<Rightarrow> ys)"

text \<open>\<open>plan.metrics || []\<close>.\<close>

definition fieldOrEmpty :: "'a list json_field \<Rightarrow> 'a list" where
  "fieldOrEmpty xs = (case xs of Value ys \<Rightarrow> ys | _ \<Rightarrow> [])"

definition validateFields :: "reporting_plan \<Rightarrow> string + unit" where
  "validateFields p =
     (case validateLoop ''metric'' VALID_METRICS (fieldOrEmpty (metrics p)) of
        Inl e \<Rightarrow> Inl e
      | Inr _ \<Rightarrow> validateLoop ''dimension'' VALID_DIMENSIONS (fieldOrEmpty (dimensions p)))"

definition executeGA4Query :: "env \<Rightarrow> string \<Rightarrow> reporting_plan \<Rightarrow> string step" where
  "executeGA4Query w propertyId p = (runReport w propertyId p, [RunReport propertyId p])"

text \<open>
  \<open>generateExplanation\<close> joins \<open>plan.metrics\<close> and \<open>plan.dimensions\<close> into its prompt
  with no default, so a plan in which one of them is missing or \<open>null\<close> throws a
  TypeError here.
\<close>

definition joinField :: "string list json_field \<Rightarrow> string + string" where
  "joinField xs =
     (case xs of
        Absent \<Rightarrow> Inl ''Cannot read properties of undefined (reading 'join')''
      | JsonNull \<Rightarrow> Inl ''Cannot read properties of null (reading 'join')''
      | Value ys \<Rightarrow> Inr (joinStrings '', '' ys))"

definition generateExplanation :: "env \<Rightarrow> string \<Rightarrow> reporting_plan \<Rightarrow> string \<Rightarrow> string step" where
  "generateExplanation w q p ga4Data =
     (case joinField (metrics p) of
        Inl e \<Rightarrow> (Inl e, [])
      | Inr ms \<Rightarrow>
          (case joinField (dimensions p) of
             Inl e \<Rightarrow> (Inl e, [])
           | Inr ds \<Rightarrow> callChat w (GA4ExplanationPrompt q ms ds (dateRanges p) ga4Data)))"

record analytics_query =
  aPropertyId :: string
  aQuery :: string

definition analyticsSteps :: "env \<Rightarrow> analytics_query \<Rightarrow> (string \<times> string) step" where
  "analyticsSteps w query =
     andThen (inferReportingPlan w (aQuery query)) (\<lambda>reportingPlan.
     andThen (validateFields reportingPlan, []) (\<lambda>_.
     andThen (executeGA4Query w (aPropertyId query) reportingPlan) (\<lambda>ga4Data.
     andThen (generateExplanation w (aQuery query) reportingPlan ga4Data) (\<lambda>explanation.
       (Inr (ga4Data, explanation), [])))))"

text \<open>\<open>AnalyticsAgent.processQuery\<close>: the steps inside \<open>try\<close>, and the \<open>catch\<close>.\<close>

definition analyticsProcessQuery :: "env \<Rightarrow> analytics_query \<Rightarrow> string agent_result \<times> event list" where
  "analyticsProcessQuery w query =
     (case analyticsSteps w query of
        (Inr (ga4Data, expl), calls) \<Rightarrow>
          (\<lparr>success = True, data = Some ga4Data, explanation = expl, error = None\<rparr>, calls)
      | (Inl errorMessage, calls) \<Rightarrow>
          (\<lparr>success = False, data = None,
            explanation = ''Failed to process analytics query: '' @ errorMessage,
            error = Some errorMessage\<rparr>, calls))"

subsection \<open>The SEO agent\<close>

record seo_query =
  sQuery :: string
  sSpreadsheetId :: "string option"

definition ensureInitialized :: "env \<Rightarrow> unit step" where
  "ensureInitialized w =
     (if credentialsLoaded w then (Inr (), [])
      else (Inl ''SEO Agent initialization failed. Ensure credentials.json exists at project root.'', []))"

text \<open>\<open>query.spreadsheetId || process.env.SEO_SPREADSHEET_ID\<close>, and the check after it.\<close>

definition resolveSpreadsheetId :: "env \<Rightarrow> seo_query \<Rightarrow> string step" where
  "resolveSpreadsheetId w query =
     (let chosen = (case sSpreadsheetId query of
                      Some i \<Rightarrow> if i \<noteq> [] then Some i else SEO_SPREADSHEET_ID w
                    | None \<Rightarrow> SEO_SPREADSHEET_ID w)
      in case chosen of
           Some i \<Rightarrow> if i \<noteq> [] then (Inr i, [])
                     else (Inl ''No spreadsheet ID provided. Set SEO_SPREADSHEET_ID or include in request.'', [])
         | None \<Rightarrow> (Inl ''No spreadsheet ID provided. Set SEO_SPREADSHEET_ID or include in request.'', []))"

definition loadSpreadsheetData :: "env \<Rightarrow> string \<Rightarrow> row list step" where
  "loadSpreadsheetData w spreadsheetId = (loadSheet w spreadsheetId, [LoadSheet spreadsheetId])"

definition inferDataPlan :: "env \<Rightarrow> string \<Rightarrow> row list \<Rightarrow> data_plan step" where
  "inferDataPlan w q sampleData =
     (let columns = (case sampleData of [] \<Rightarrow> [] | r # _ \<Rightarrow> map fst r);
          sampleRows = take 3 sampleData
      in andThen (callChat w (DataPlanPrompt q columns sampleRows)) (\<lambda>response.
           case matchBraces response of
             None \<Rightarrow> (Inl ''Failed to parse data plan from LLM response'', [])
           | Some json \<Rightarrow> (parseDataPlan w json, [])))"

definition seoGenerateExplanation :: "env \<Rightarrow> string \<Rightarrow> exec_output \<Rightarrow> string step" where
  "seoGenerateExplanation w q res = callChat w (SEOExplanationPrompt q res)"

definition seoSteps :: "env \<Rightarrow> seo_query \<Rightarrow> (exec_output \<times> string) step" where
  "seoSteps w query =
     andThen (ensureInitialized w) (\<lambda>_.
     andThen (resolveSpreadsheetId w query) (\<lambda>spreadsheetId.
     andThen (loadSpreadsheetData w spreadsheetId) (\<lambda>sheetData.
     andThen (inferDataPlan w (sQuery query) sheetData) (\<lambda>dataPlan.
     andThen (executeDataOperations (runtime w) sheetData dataPlan, []) (\<lambda>res.
     andThen (seoGenerateExplanation w (sQuery query) res) (\<lambda>explanation.
       (Inr (res, explanation), [])))))))"

text \<open>\<open>SEOAgent.processQuery\<close>: the steps inside \<open>try\<close>, and the \<open>catch\<close>.\<close>

definition seoProcessQuery :: "env \<Rightarrow> seo_query \<Rightarrow> exec_output agent_result \<times> event list" where
  "seoProcessQuery w query =
     (case seoSteps w query of
        (Inr (res, expl), calls) \<Rightarrow>
          (\<lparr>success = True, data = Some res, explanation = expl, error = None\<rparr>, calls)
      | (Inl errorMessage, calls) \<Rightarrow>
          (\<lparr>success = False, data = None,
            explanation = ''Failed to process SEO query: '' @ errorMessage,
            error = Some errorMessage\<rparr>, calls))"


section \<open>The orchestrator\<close>

record query_request =
  query :: string
  propertyId :: "string option"
  spreadsheetId :: "string option"

datatype agent_type = Analytics | SEO | Both

datatype response_data =
    AnalyticsData "string option"
  | SEOData "exec_output option"
  | BothData "string option" "exec_output option"

text \<open>The metadata without \<open>processingTime\<close>, which is read off the clock.\<close>

record metadata =
  intent :: string
  agentsUsed :: "string list"

record orchestrator_response =
  succeeded :: bool
  response :: string
  responseData :: "response_data option"
  responseMeta :: "metadata option"
  responseError :: "string option"

text \<open>A string is truthy when it is there and not empty: \<open>!!propertyId\<close>.\<close>

definition present :: "string option \<Rightarrow> bool" where
  "present s = (case s of None \<Rightarrow> False | Some t \<Rightarrow> t \<noteq> [])"

definition isWhiteSpace :: "char \<Rightarrow> bool" where
  "isWhiteSpace c = ((of_char c :: nat) \<in> {9, 10, 11, 12, 13, 32, 160})"

definition trim :: "string \<Rightarrow> string" where
  "trim s = rev (dropWhile isWhiteSpace (rev (dropWhile isWhiteSpace s)))"

definition detectIntent :: "env \<Rightarrow> string \<Rightarrow> string option \<Rightarrow> agent_type step" where
  "detectIntent w q pid =
     (let hasPropertyId = present pid in
      andThen (callChat w (IntentPrompt q hasPropertyId)) (\<lambda>response.
        let intent = toLowerCase (trim response) in
        if intent \<notin> set [''analytics'', ''seo'', ''both''] then
          (if hasPropertyId then (Inr Analytics, [])
           else if strIncludes (toLowerCase q) ''seo'' \<or> strIncludes (toLowerCase q) ''title''
                   \<or> strIncludes (toLowerCase q) ''meta''
             then (Inr SEO, [])
           else (Inr Analytics, []))
        else if intent = ''analytics'' then (Inr Analytics, [])
        else if intent = ''seo'' then (Inr SEO, [])
        else (Inr Both, [])))"

definition routeToAnalytics :: "env \<Rightarrow> query_request \<Rightarrow> orchestrator_response step" where
  "routeToAnalytics w request =
     (let missing =
            (Inr \<lparr>succeeded = False,
                  response = ''Analytics queries require a propertyId. Please provide a GA4 property ID in your request.'',
                  responseData = None, responseMeta = None,
                  responseError = Some ''Missing propertyId''\<rparr>, [])
      in case propertyId request of
           None \<Rightarrow> missing
         | Some p \<Rightarrow>
             if p = [] then missing
             else (case analyticsProcessQuery w \<lparr>aPropertyId = p, aQuery = query request\<rparr> of
                     (result, calls) \<Rightarrow>
                       (Inr \<lparr>succeeded = success result, response = explanation result,
                             responseData = Some (AnalyticsData (data result)), responseMeta = None,
                             responseError = error result\<rparr>, calls)))"

definition routeToSEO :: "env \<Rightarrow> query_request \<Rightarrow> orchestrator_response step" where
  "routeToSEO w request =
     (case seoProcessQuery w \<lparr>sQuery = query request, sSpreadsheetId = spreadsheetId request\<rparr> of
        (result, calls) \<Rightarrow>
          (Inr \<lparr>succeeded = success result, response = explanation result,
                responseData = Some (SEOData (data result)), responseMeta = None,
                responseError = error result\<rparr>, calls))"

definition aggregateResponses ::
  "env \<Rightarrow> string \<Rightarrow> string agent_result \<Rightarrow> exec_output agent_result \<Rightarrow> string step"
where
  "aggregateResponses w q analyticsResult seoResult =
     callChat w (AggregatePrompt q (explanation analyticsResult) (explanation seoResult))"

text \<open>
  \<open>routeToBoth\<close>.  The two agents share no state and neither throws, so the pair that
  \<open>Promise.all\<close> resolves to does not depend on how their calls interleave; the log
  lists the analytics agent's calls first.
\<close>

definition routeToBoth :: "env \<Rightarrow> query_request \<Rightarrow> orchestrator_response step" where
  "routeToBoth w request =
     (let resolved = (\<lparr>success = False, data = None, explanation = ''No propertyId provided'',
                       error = Some ''Missing propertyId''\<rparr>, []);
          analyticsRun =
            (case propertyId request of
               None \<Rightarrow> resolved
             | Some p \<Rightarrow>
                 if p = [] then resolved
                 else analyticsProcessQuery w \<lparr>aPropertyId = p, aQuery = query request\<rparr>)
      in case analyticsRun of (analyticsResult, analyticsCalls) \<Rightarrow>
         (case seoProcessQuery w \<lparr>sQuery = query request, sSpreadsheetId = spreadsheetId request\<rparr> of
            (seoResult, seoCalls) \<Rightarrow>
         (case aggregateResponses w (query request) analyticsResult seoResult of
            (Inl e, aggregateCalls) \<Rightarrow> (Inl e, analyticsCalls @ seoCalls @ aggregateCalls)
          | (Inr aggregatedResponse, aggregateCalls) \<Rightarrow>
              (Inr \<lparr>succeeded = (success analyticsResult \<and> success seoResult),
                    response = aggregatedResponse,
                    responseData =
                      Some (BothData (if success analyticsResult then data analyticsResult else None)
                                     (data seoResult)),
                    responseMeta = None, responseError = None\<rparr>,
               analyticsCalls @ seoCalls @ aggregateCalls))))"

definition intentName :: "agent_type \<Rightarrow> string" where
  "intentName i = (case i of Analytics \<Rightarrow> ''analytics'' | SEO \<Rightarrow> ''seo'' | Both \<Rightarrow> ''both'')"

definition orchestratorSteps :: "env \<Rightarrow> query_request \<Rightarrow> orchestrator_response step" where
  "orchestratorSteps w request =
     andThen (detectIntent w (query request) (propertyId request)) (\<lambda>i.
     andThen (case i of
                Analytics \<Rightarrow> routeToAnalytics w request
              | SEO \<Rightarrow> routeToSEO w request
              | Both \<Rightarrow> routeToBoth w request) (\<lambda>r.
       (Inr (r\<lparr>responseMeta :=
                 Some \<lparr>intent = intentName i,
                       agentsUsed = (if i = Both then [''analytics'', ''seo''] else [intentName i])\<rparr>\<rparr>),
        [])))"

text \<open>\<open>Orchestrator.processQuery\<close>: the steps inside \<open>try\<close>, and the \<open>catch\<close>.\<close>

definition processQuery :: "env \<Rightarrow> query_request \<Rightarrow> orchestrator_response \<times> event list" where
  "processQuery w request =
     (case orchestratorSteps w request of
        (Inr r, calls) \<Rightarrow> (r, calls)
      | (Inl errorMessage, calls) \<Rightarrow>
          (\<lparr>succeeded = False, response = ''Failed to process query: '' @ errorMessage,
            responseData = None,
            responseMeta = Some \<lparr>intent = ''unknown'', agentsUsed = []\<rparr>,
            responseError = Some errorMessage\<rparr>, calls))"


text \<open>Which calls of the log belong to which agent.\<close>

definition analyticsAgentCall :: "event \<Rightarrow> bool" where
  "analyticsAgentCall e =
     (case e of
        RunReport _ _ \<Rightarrow> True
      | ChatCall (ReportingPlanPrompt _) \<Rightarrow> True
      | ChatCall (GA4ExplanationPrompt _ _ _ _ _) \<Rightarrow> True
      | _ \<Rightarrow> False)"

definition seoAgentCall :: "event \<Rightarrow> bool" where
  "seoAgentCall e =
     (case e of
        LoadSheet _ \<Rightarrow> True
      | ChatCall (DataPlanPrompt _ _ _) \<Rightarrow> True
      | ChatCall (SEOExplanationPrompt _ _) \<Rightarrow> True
      | _ \<Rightarrow> False)"

section \<open>Example inputs\<close>

text \<open>
  A runtime for the examples.  It agrees with ECMAScript on the strings and numbers the
  examples use: unsigned decimal integers below \<open>2^53\<close>, and strings that start with
  no number.
\<close>

definition exampleNumberToString :: "jsnum \<Rightarrow> string" where
  "exampleNumberToString n =
     (case n of
        NaN \<Rightarrow> ''NaN''
      | NegInf \<Rightarrow> ''-Infinity''
      | PosInf \<Rightarrow> ''Infinity''
      | Fin q \<Rightarrow> if q < 0 then CHR ''-'' # natToString (nat (- \<lfloor>q\<rfloor>)) else natToString (nat \<lfloor>q\<rfloor>))"

text \<open>
  The sort of the example runtime is the one V8 runs on an array of fewer than 64
  elements (\<open>array-sort.tq\<close>): it measures the run the array starts with, reverses it
  when it descends strictly, and places every later element in the sorted part by a
  binary search.  (From 64 elements on V8 also merges runs; the examples are shorter.)
\<close>

fun v8RunLength :: "('a \<Rightarrow> 'a \<Rightarrow> int) \<Rightarrow> bool \<Rightarrow> 'a \<Rightarrow> 'a list \<Rightarrow> nat \<Rightarrow> nat" where
  "v8RunLength cmp isDescending previous [] runLength = runLength"
| "v8RunLength cmp isDescending previous (current # rest) runLength =
     (if (if isDescending then cmp current previous \<ge> 0 else cmp current previous < 0)
      then runLength
      else v8RunLength cmp isDescending current rest (runLength + 1))"

definition v8CountAndMakeRun :: "('a \<Rightarrow> 'a \<Rightarrow> int) \<Rightarrow> 'a list \<Rightarrow> 'a list \<times> nat" where
  "v8CountAndMakeRun cmp xs =
     (case xs of
        [] \<Rightarrow> ([], 0)
      | [x] \<Rightarrow> ([x], 1)
      | x0 # x1 # rest \<Rightarrow>
          (let isDescending = cmp x1 x0 < 0;
               runLength = v8RunLength cmp isDescending x1 rest 2
           in (if isDescending then rev (take runLength xs) @ drop runLength xs else xs,
               runLength)))"

text \<open>
  The binary search of \<open>BinaryInsertionSort\<close> for the place of \<open>pivot\<close> between
  \<open>left\<close> and \<open>right\<close>; \<open>mid\<close> stays below \<open>right\<close>, which is at most the length.
\<close>

function v8InsertionPoint :: "('a \<Rightarrow> 'a \<Rightarrow> int) \<Rightarrow> 'a \<Rightarrow> 'a list \<Rightarrow> nat \<Rightarrow> nat \<Rightarrow> nat" where
  "v8InsertionPoint cmp pivot xs left right =
     (if left < right then
        (if cmp pivot (xs ! (left + (right - left) div 2)) < 0
         then v8InsertionPoint cmp pivot xs left (left + (right - left) div 2)
         else v8InsertionPoint cmp pivot xs (left + (right - left) div 2 + 1) right)
      else left)"
  by pat_completeness auto
termination
  by (relation "measure (\<lambda>(cmp, pivot, xs, left, right). right - left)") auto

declare v8InsertionPoint.simps [simp del]

fun v8InsertAll :: "('a \<Rightarrow> 'a \<Rightarrow> int) \<Rightarrow> 'a list \<Rightarrow> 'a list \<Rightarrow> 'a list" where
  "v8InsertAll cmp sortedPart [] = sortedPart"
| "v8InsertAll cmp sortedPart (pivot # rest) =
     (let left = v8InsertionPoint cmp pivot sortedPart 0 (length sortedPart)
      in v8InsertAll cmp (take left sortedPart @ pivot # drop left sortedPart) rest)"

definition v8Sort :: "('a \<Rightarrow> 'a \<Rightarrow> int) \<Rightarrow> 'a list \<Rightarrow> 'a list" where
  "v8Sort cmp xs =
     (if length xs < 2 then xs
      else (case v8CountAndMakeRun cmp xs of
              (ys, runLength) \<Rightarrow> v8InsertAll cmp (take runLength ys) (drop runLength ys)))"

definition exampleBuiltins :: js_builtins where
  "exampleBuiltins =
     \<lparr>StringToNumber = (\<lambda>s. if s = [] then Fin 0
                             else if list_all isDigit s then Fin (of_int (digitsValue s)) else NaN),
      parseFloatString = (\<lambda>s. if takeWhile isDigit s = [] then NaN
                               else Fin (of_int (digitsValue (takeWhile isDigit s)))),
      NumberToString = exampleNumberToString,
      inheritedText = (\<lambda>k. if k = ''__proto__'' then ''[object Object]''
                            else ''function '' @ k @ ''() { [native code] }''),
      arraySort = v8Sort\<rparr>"

definition rowA :: row where
  "rowA = [(''Address'', ''http://example.com/a''), (''Status Code'', ''200'')]"

definition rowB :: row where
  "rowB = [(''Address'', ''https://example.com/b''), (''Status Code'', ''404'')]"

definition rowC :: row where
  "rowC = [(''Address'', ''HTTPS://example.com/c''), (''Status Code'', ''301'')]"

definition rowD :: row where
  "rowD = [(''Address'', ''https://example.com/d''), (''Status Code'', ''404'')]"

definition exampleRows :: "row list" where
  "exampleRows = [rowA, rowB, rowC, rowD]"

definition plainPlan :: data_plan where
  "plainPlan = \<lparr>filters = None, groupBy = None, sortBy = None, limit = JUndefined\<rparr>"

definition secureClause :: filter_clause where
  "secureClause = \<lparr>column = ''Address'', operator = ''contains'', fvalue = JStr ''HTTPS''\<rparr>"

definition brokenClause :: filter_clause where
  "brokenClause = \<lparr>column = ''Status Code'', operator = ''>'', fvalue = JNum (Fin 400)\<rparr>"

definition protocolClause :: "string \<Rightarrow> jsval \<Rightarrow> filter_clause" where
  "protocolClause op v = \<lparr>column = ''Protocol'', operator = op, fvalue = v\<rparr>"

definition byStatus :: sort_spec where
  "byStatus = \<lparr>sortColumn = ''Status Code'', desc = False\<rparr>"

definition pageA :: row where
  "pageA = [(''Page'', ''/a''), (''Hits'', ''3'')]"

definition pageB :: row where
  "pageB = [(''Page'', ''/b''), (''Hits'', ''2'')]"

definition pageC :: row where
  "pageC = [(''Page'', ''/c'')]"

definition pageD :: row where
  "pageD = [(''Page'', ''/d''), (''Hits'', ''1'')]"

definition byHits :: sort_spec where
  "byHits = \<lparr>sortColumn = ''Hits'', desc = False\<rparr>"

definition examplePlan :: data_plan where
  "examplePlan = \<lparr>filters = Some [secureClause, brokenClause], groupBy = None,
                   sortBy = Some byStatus, limit = JNum (Fin 0)\<rparr>"

definition exampleReportingPlan :: reporting_plan where
  "exampleReportingPlan =
     \<lparr>metrics = Value [''sessions'', ''pageviews''], dimensions = Value [''pagePath''],
      dateRanges = ''[{startDate: 7daysAgo, endDate: today}]'', orderBy = ''[]'',
      reportLimit = ''10''\<rparr>"

definition exampleChat :: "string \<Rightarrow> string \<Rightarrow> prompt \<Rightarrow> string + string" where
  "exampleChat intentReply aggregateReply p =
     (case p of
        IntentPrompt _ _ \<Rightarrow> Inr intentReply
      | AggregatePrompt _ _ _ \<Rightarrow> Inr aggregateReply
      | ReportingPlanPrompt _ \<Rightarrow> Inr ''Plan: {metrics: [sessions, pageviews], dimensions: [pagePath]}''
      | GA4ExplanationPrompt _ _ _ _ _ \<Rightarrow> Inr ''Traffic is steady.''
      | DataPlanPrompt _ _ _ \<Rightarrow> Inr ''{filters: [...], sortBy: {column: Status Code}, limit: 0}''
      | SEOExplanationPrompt _ _ \<Rightarrow> Inr ''Two secure pages are broken.'')"

definition exampleEnv :: "string \<Rightarrow> string \<Rightarrow> env" where
  "exampleEnv intentReply aggregateReply =
     \<lparr>runtime = exampleBuiltins,
      chat = exampleChat intentReply aggregateReply,
      parseReportingPlan = (\<lambda>_. Inr exampleReportingPlan),
      parseDataPlan = (\<lambda>_. Inr examplePlan),
      runReport = (\<lambda>_ _. Inr ''{rows: []}''),
      credentialsLoaded = True,
      SEO_SPREADSHEET_ID = None,
      loadSheet = (\<lambda>_. Inr exampleRows)\<rparr>"

definition exampleRequest :: query_request where
  "exampleRequest = \<lparr>query = ''Which top pages have broken title tags?'',
                      propertyId = None, spreadsheetId = Some ''sheet-1''\<rparr>"

definition exampleAnalyticsQuery :: analytics_query where
  "exampleAnalyticsQuery = \<lparr>aPropertyId = ''516821164'', aQuery = ''Top 5 pages by page views''\<rparr>"

definition exampleSeoQuery :: seo_query where
  "exampleSeoQuery = \<lparr>sQuery = ''Which URLs do not use HTTPS?'', sSpreadsheetId = None\<rparr>"

definition rateLimited :: "nat \<Rightarrow> fetch_outcome" where
  "rateLimited attempt = Resolves \<lparr>status = 429, bodyText = ''Too Many Requests'', bodyJson = Inr None\<rparr>"


section \<open>Properties of executeDataOperations\<close>

subsection \<open>Strings and comparisons\<close>

lemma startsWith_iff: "startsWith h n \<longleftrightarrow> (\<exists>post. h = n @ post)"
  by (induction h n rule: startsWith.induct) auto

lemma strIncludes_iff: "strIncludes h n \<longleftrightarrow> (\<exists>pre post. h = pre @ n @ post)"
proof (induction h)
  case Nil
  show ?case by auto
next
  case (Cons c cs)
  have "(\<exists>pre post. c # cs = pre @ n @ post) \<longleftrightarrow>
        (\<exists>post. c # cs = n @ post) \<or> (\<exists>pre post. cs = pre @ n @ post)"
  proof
    assume "\<exists>pre post. c # cs = pre @ n @ post"
    then obtain pre post where e: "c # cs = pre @ n @ post" by blast
    show "(\<exists>post. c # cs = n @ post) \<or> (\<exists>pre post. cs = pre @ n @ post)"
    proof (cases pre)
      case Nil
      with e show ?thesis by auto
    next
      case (Cons a pre')
      with e have "cs = pre' @ n @ post" by simp
      then show ?thesis by blast
    qed
  next
    assume "(\<exists>post. c # cs = n @ post) \<or> (\<exists>pre post. cs = pre @ n @ post)"
    then show "\<exists>pre post. c # cs = pre @ n @ post"
    proof
      assume "\<exists>post. c # cs = n @ post"
      then obtain post where "c # cs = [] @ n @ post" by auto
      then show ?thesis by blast
    next
      assume "\<exists>pre post. cs = pre @ n @ post"
      then obtain pre post where "c # cs = (c # pre) @ n @ post" by auto
      then show ?thesis by blast
    qed
  qed
  then show ?case using Cons.IH by (simp add: startsWith_iff)
qed

lemma strLess_irrefl: "\<not> strLess s s"
  by (induction s) auto

lemma numLess_irrefl: "\<not> numLess x x"
  by (cases x) auto

lemma numLess_NaN_right: "numLess x NaN = False"
  by (cases x) auto

lemma jsGreater_irrefl: "\<not> jsGreater js v v"
  by (cases v) (auto simp: strLess_irrefl numLess_irrefl)

lemma looseEq_undefined: "looseEq js JUndefined v = (v = JNull \<or> v = JUndefined)"
  by (cases v) auto

lemma cell_absent:
  "map_of r c = None \<Longrightarrow> c \<notin> set objectPrototypeKeys \<Longrightarrow> cell js r c = JUndefined"
  by (simp add: cell_def)

subsection \<open>The filter step\<close>

lemma filterLoop_conj:
  "filterLoop js fs rows = filter (\<lambda>r. list_all (\<lambda>f. filterRow js f r) fs) rows"
proof (induction fs arbitrary: rows)
  case Nil
  show ?case by simp
next
  case (Cons f fs)
  show ?case by (simp add: Cons.IH conj_commute)
qed

lemma applyFilters_conj:
  "applyFilters js p rows = filter (\<lambda>r. list_all (\<lambda>f. filterRow js f r) (orEmpty (filters p))) rows"
  by (cases "filters p") (auto simp: applyFilters_def orEmpty_def filterLoop_conj)

text \<open>
  C4.  The filter step keeps the rows in their order and keeps a row exactly when it
  satisfies every clause of the plan.  A clause with \<open>==\<close> or \<open>!=\<close> is the loose
  equality of the cell and the clause's value, or its negation; with \<open>>\<close> or \<open><\<close> it
  compares \<open>parseFloat\<close> of both sides; with \<open>contains\<close> it holds when the lower-cased
  string of the clause's value occurs in the lower-cased string of the cell; with any
  other operator it holds.
\<close>

theorem filter_step_semantics:
  "applyFilters js p rows
     = filter (\<lambda>r. list_all (\<lambda>f. filterRow js f r) (orEmpty (filters p))) rows
   \<and> (operator f = ''=='' \<longrightarrow> filterRow js f r = looseEq js (cell js r (column f)) (fvalue f))
   \<and> (operator f = ''!='' \<longrightarrow> filterRow js f r = (\<not> looseEq js (cell js r (column f)) (fvalue f)))
   \<and> (operator f = ''>'' \<longrightarrow>
        filterRow js f r = numLess (parseFloat js (fvalue f)) (parseFloat js (cell js r (column f))))
   \<and> (operator f = ''<'' \<longrightarrow>
        filterRow js f r = numLess (parseFloat js (cell js r (column f))) (parseFloat js (fvalue f)))
   \<and> (operator f = ''contains'' \<longrightarrow>
        filterRow js f r = (\<exists>pre post. toLowerCase (ToString js (cell js r (column f)))
                                        = pre @ toLowerCase (ToString js (fvalue f)) @ post))
   \<and> (operator f \<notin> {''=='', ''!='', ''>'', ''<'', ''contains''} \<longrightarrow> filterRow js f r)"
  by (simp add: applyFilters_conj filterRow_def Let_def strIncludes_iff)

theorem filter_step_semantics_witness:
  "operator secureClause = ''contains''
   \<and> (\<exists>pre post. toLowerCase (ToString exampleBuiltins (cell exampleBuiltins rowC (column secureClause)))
                    = pre @ toLowerCase (ToString exampleBuiltins (fvalue secureClause)) @ post)
   \<and> operator brokenClause = ''>''
   \<and> \<not> numLess (parseFloat exampleBuiltins (fvalue brokenClause))
               (parseFloat exampleBuiltins (cell exampleBuiltins rowC (column brokenClause)))
   \<and> \<not> filterRow exampleBuiltins brokenClause rowC
   \<and> applyFilters exampleBuiltins examplePlan exampleRows = [rowB, rowD]"
proof -
  have op: "operator secureClause = ''contains''"
    by (simp add: secureClause_def)
  have kept: "filterRow exampleBuiltins secureClause rowC"
    by code_simp
  have op2: "operator brokenClause = ''>''"
    by (simp add: brokenClause_def)
  have dropped: "\<not> filterRow exampleBuiltins brokenClause rowC"
    by code_simp
  have conj: "filter (\<lambda>r. list_all (\<lambda>f. filterRow exampleBuiltins f r) (orEmpty (filters examplePlan)))
                exampleRows = [rowB, rowD]"
    by code_simp
  show ?thesis
    using filter_step_semantics [of exampleBuiltins examplePlan exampleRows secureClause rowC]
      filter_step_semantics [of exampleBuiltins examplePlan exampleRows brokenClause rowC]
      op kept op2 dropped conj
    by simp
qed

text \<open>
  C9.  Filtering is idempotent: applying the filter step of a plan to its own result
  changes nothing.
\<close>

theorem filter_idempotent:
  "applyFilters js p (applyFilters js p rows) = applyFilters js p rows"
  by (simp add: applyFilters_conj)

theorem filter_idempotent_witness:
  "applyFilters exampleBuiltins examplePlan (applyFilters exampleBuiltins examplePlan exampleRows)
     = [rowB, rowD]"
proof -
  have once: "applyFilters exampleBuiltins examplePlan exampleRows = [rowB, rowD]"
    by code_simp
  show ?thesis
    using filter_idempotent [of exampleBuiltins examplePlan exampleRows] once by simp
qed

text \<open>
  C5, as amended.  A clause naming a column that a row does not have (and that is not a
  name every object inherits) never raises: the cell reads as \<open>undefined\<close>.  With \<open>>\<close>
  or \<open><\<close> the row is dropped.  With \<open>==\<close> the row is dropped unless the clause's value
  is null or missing.  With \<open>!=\<close> the row is kept unless the clause's value is null or
  missing.  With \<open>contains\<close> the row is kept exactly when the lower-cased string of the
  clause's value occurs in \<open>undefined\<close>.  With any other operator the row is kept.
\<close>

theorem absent_column_clause:
  assumes "map_of r (column f) = None" and "column f \<notin> set objectPrototypeKeys"
  shows "filterRow js f r =
     (if operator f = ''=='' then fvalue f = JNull \<or> fvalue f = JUndefined
      else if operator f = ''!='' then fvalue f \<noteq> JNull \<and> fvalue f \<noteq> JUndefined
      else if operator f = ''>'' \<or> operator f = ''<'' then False
      else if operator f = ''contains''
        then strIncludes ''undefined'' (toLowerCase (ToString js (fvalue f)))
      else True)"
  using assms
  by (simp add: filterRow_def cell_absent looseEq_undefined parseFloat_def ToString_def
      toLowerCase_def lowerChar_def numLess_NaN_right)

theorem absent_column_clause_witness:
  "map_of rowA (column (protocolClause ''>'' (JNum (Fin 5)))) = None
   \<and> column (protocolClause ''>'' (JNum (Fin 5))) \<notin> set objectPrototypeKeys
   \<and> \<not> filterRow exampleBuiltins (protocolClause ''>'' (JNum (Fin 5))) rowA"
proof -
  have a: "map_of rowA (column (protocolClause ''>'' (JNum (Fin 5)))) = None"
    by (simp add: rowA_def protocolClause_def)
  have b: "column (protocolClause ''>'' (JNum (Fin 5))) \<notin> set objectPrototypeKeys"
    by (simp add: protocolClause_def objectPrototypeKeys_def)
  have c: "operator (protocolClause ''>'' (JNum (Fin 5))) = ''>''"
    by (simp add: protocolClause_def)
  show ?thesis
    using absent_column_clause [OF a b, of exampleBuiltins] a b c by simp
qed

text \<open>
  The claim C5 as it stands fails: no row of the example has a column \<open>Protocol\<close>, and
  the clauses \<open>Protocol != "https"\<close>, \<open>Protocol == null\<close> and
  \<open>Protocol contains "fine"\<close> each keep every row.
\<close>

theorem absent_column_counterexample:
  "list_all (\<lambda>r. map_of r ''Protocol'' = None) exampleRows
   \<and> exampleRows \<noteq> []
   \<and> applyFilters exampleBuiltins
        (plainPlan\<lparr>filters := Some [protocolClause ''!='' (JStr ''https'')]\<rparr>) exampleRows
      = exampleRows
   \<and> applyFilters exampleBuiltins
        (plainPlan\<lparr>filters := Some [protocolClause ''=='' JNull]\<rparr>) exampleRows
      = exampleRows
   \<and> applyFilters exampleBuiltins
        (plainPlan\<lparr>filters := Some [protocolClause ''contains'' (JStr ''fine'')]\<rparr>) exampleRows
      = exampleRows
   \<and> executeDataOperations exampleBuiltins exampleRows
        (plainPlan\<lparr>filters := Some [protocolClause ''!='' (JStr ''https'')]\<rparr>)
      = Inr \<lparr>plan = plainPlan\<lparr>filters := Some [protocolClause ''!='' (JStr ''https'')]\<rparr>,
             resultCount = 4, results = map Row exampleRows\<rparr>"
  by code_simp


subsection \<open>The sort step\<close>

lemma comparator_zero_iff:
  "comparator js sb a b = 0 \<longleftrightarrow>
     (\<not> jsGreater js (recordGet js a (sortColumn sb)) (recordGet js b (sortColumn sb)) \<and>
      \<not> jsGreater js (recordGet js b (sortColumn sb)) (recordGet js a (sortColumn sb)))"
  by (simp add: comparator_def jsLess_def Let_def)

lemma comparator_same_key:
  "recordGet js a (sortColumn sb) = recordGet js b (sortColumn sb) \<Longrightarrow> comparator js sb a b = 0"
  by (simp add: comparator_zero_iff jsGreater_irrefl)

text \<open>The order of strings by code units is a strict linear order.\<close>

lemma strLess_trans: "strLess a b \<Longrightarrow> strLess b c \<Longrightarrow> strLess a c"
proof (induction a b arbitrary: c rule: strLess.induct)
  case 1
  then show ?case by simp
next
  case (2 y ys)
  then show ?case by (cases c) auto
next
  case (3 x xs)
  then show ?case by simp
next
  case (4 x xs y ys)
  then obtain z zs where c: "c = z # zs" by (cases c) auto
  with 4 show ?case by auto
qed

lemma strLess_total: "\<not> strLess a b \<Longrightarrow> \<not> strLess b a \<Longrightarrow> a = b"
  by (induction a b rule: strLess.induct) auto

lemma numLess_Fin_trans: "numLess (Fin a) (Fin b) \<Longrightarrow> numLess (Fin b) (Fin c) \<Longrightarrow> numLess (Fin a) (Fin c)"
  by simp

text \<open>
  When the values under the sort column are all strings, or all finite numbers, \<open>></\<close>
  is a strict linear order on them.
\<close>

lemma jsGreater_keys_trans:
  assumes "(\<exists>s. u = JStr s) \<and> (\<exists>s. v = JStr s) \<and> (\<exists>s. w = JStr s)
           \<or> (\<exists>q. u = JNum (Fin q)) \<and> (\<exists>q. v = JNum (Fin q)) \<and> (\<exists>q. w = JNum (Fin q))"
    and "jsGreater js u v" and "jsGreater js v w"
  shows "jsGreater js u w"
  using assms by (auto simp: ToNumber_def intro: strLess_trans)

lemma jsGreater_keys_total:
  assumes "(\<exists>s. u = JStr s) \<and> (\<exists>s. v = JStr s)
           \<or> (\<exists>q. u = JNum (Fin q)) \<and> (\<exists>q. v = JNum (Fin q))"
    and "\<not> jsGreater js u v" and "\<not> jsGreater js v u"
  shows "u = v"
  using assms by (auto simp: ToNumber_def dest: strLess_total)

lemma comparator_signs:
  "comparator js sb a b < 0 \<longleftrightarrow>
     (if desc sb then jsGreater js (recordGet js a (sortColumn sb)) (recordGet js b (sortColumn sb))
      else \<not> jsGreater js (recordGet js a (sortColumn sb)) (recordGet js b (sortColumn sb))
           \<and> jsGreater js (recordGet js b (sortColumn sb)) (recordGet js a (sortColumn sb)))"
  "comparator js sb a b > 0 \<longleftrightarrow>
     (if desc sb then \<not> jsGreater js (recordGet js a (sortColumn sb)) (recordGet js b (sortColumn sb))
           \<and> jsGreater js (recordGet js b (sortColumn sb)) (recordGet js a (sortColumn sb))
      else jsGreater js (recordGet js a (sortColumn sb)) (recordGet js b (sortColumn sb)))"
  by (simp_all add: comparator_def jsLess_def Let_def)

lemma comparator_consistent:
  assumes keys: "(\<forall>r\<in>set recs. \<exists>s. recordGet js r (sortColumn sb) = JStr s)
                 \<or> (\<forall>r\<in>set recs. \<exists>q. recordGet js r (sortColumn sb) = JNum (Fin q))"
  shows "consistentComparator (comparator js sb) recs"
proof -
  let ?k = "\<lambda>r. recordGet js r (sortColumn sb)"
  let ?g = "\<lambda>a b. jsGreater js (?k a) (?k b)"
  have trans: "?g a c" if "a \<in> set recs" "b \<in> set recs" "c \<in> set recs" "?g a b" "?g b c" for a b c
  proof (rule jsGreater_keys_trans [of "?k a" "?k b" "?k c"])
    show "(\<exists>s. ?k a = JStr s) \<and> (\<exists>s. ?k b = JStr s) \<and> (\<exists>s. ?k c = JStr s)
           \<or> (\<exists>q. ?k a = JNum (Fin q)) \<and> (\<exists>q. ?k b = JNum (Fin q)) \<and> (\<exists>q. ?k c = JNum (Fin q))"
      using keys that(1,2,3) by blast
  qed (use that in auto)
  have total: "?k a = ?k b" if "a \<in> set recs" "b \<in> set recs" "\<not> ?g a b" "\<not> ?g b a" for a b
  proof (rule jsGreater_keys_total [of "?k a" "?k b"])
    show "(\<exists>s. ?k a = JStr s) \<and> (\<exists>s. ?k b = JStr s)
           \<or> (\<exists>q. ?k a = JNum (Fin q)) \<and> (\<exists>q. ?k b = JNum (Fin q))"
      using keys that(1,2) by blast
  qed (use that in auto)
  have asym: "\<not> ?g b a" if "a \<in> set recs" "b \<in> set recs" "?g a b" for a b
    using trans [of a b a] that jsGreater_irrefl [of js "?k a"] by blast
  have tie: "comparator js sb a b = 0 \<longleftrightarrow> ?k a = ?k b" if "a \<in> set recs" "b \<in> set recs" for a b
    using total [OF that] comparator_same_key [of js a sb b] by (auto simp: comparator_zero_iff)
  have lt: "comparator js sb a b < 0 \<longleftrightarrow> (if desc sb then ?g a b else ?g b a)"
    if "a \<in> set recs" "b \<in> set recs" for a b
    using asym [of b a] that by (auto simp: comparator_signs)
  have gt: "comparator js sb a b > 0 \<longleftrightarrow> (if desc sb then ?g b a else ?g a b)"
    if "a \<in> set recs" "b \<in> set recs" for a b
    using asym [of b a] that by (auto simp: comparator_signs)
  show ?thesis
    unfolding consistentComparator_def
  proof (intro conjI ballI impI)
    fix a assume "a \<in> set recs"
    then show "comparator js sb a a = 0" by (simp add: tie)
  next
    fix a b assume "a \<in> set recs" "b \<in> set recs" "comparator js sb a b = 0"
    then show "comparator js sb b a = 0" by (simp add: tie)
  next
    fix a b c assume "a \<in> set recs" "b \<in> set recs" "c \<in> set recs"
      "comparator js sb a b = 0" "comparator js sb b c = 0"
    then show "comparator js sb a c = 0" by (simp add: tie)
  next
    fix a b c assume m: "a \<in> set recs" "b \<in> set recs" "c \<in> set recs"
      and "comparator js sb a b < 0" "comparator js sb b c < 0"
    then show "comparator js sb a c < 0"
      using trans [of a b c] trans [of c b a] by (auto simp: lt split: if_splits)
  next
    fix a b c assume m: "a \<in> set recs" "b \<in> set recs" "c \<in> set recs"
      and "0 < comparator js sb a b" "0 < comparator js sb b c"
    then show "0 < comparator js sb a c"
      using trans [of a b c] trans [of c b a] by (auto simp: gt split: if_splits)
  qed
qed

text \<open>What a consistent comparator gives on the elements of the list.\<close>

lemma consistent_refl:
  "consistentComparator cmp xs \<Longrightarrow> a \<in> set xs \<Longrightarrow> cmp a a = 0"
  by (simp add: consistentComparator_def)

lemma consistent_flip:
  assumes "consistentComparator cmp xs" and "a \<in> set xs" and "b \<in> set xs" and "cmp a b > 0"
  shows "cmp b a < 0"
proof (rule ccontr)
  assume "\<not> cmp b a < 0"
  then consider "cmp b a = 0" | "cmp b a > 0" by linarith
  then show False
  proof cases
    case 1
    then have "cmp a b = 0" using assms(1,2,3) unfolding consistentComparator_def by blast
    with assms(4) show False by simp
  next
    case 2
    then have "cmp a a > 0" using assms unfolding consistentComparator_def by blast
    with consistent_refl [OF assms(1,2)] show False by simp
  qed
qed

lemma consistent_flip':
  assumes "consistentComparator cmp xs" and "a \<in> set xs" and "b \<in> set xs" and "cmp a b < 0"
  shows "cmp b a > 0"
proof (rule ccontr)
  assume "\<not> cmp b a > 0"
  then consider "cmp b a = 0" | "cmp b a < 0" by linarith
  then show False
  proof cases
    case 1
    then have "cmp a b = 0" using assms(1,2,3) unfolding consistentComparator_def by blast
    with assms(4) show False by simp
  next
    case 2
    then have "cmp a a < 0" using assms unfolding consistentComparator_def by blast
    with consistent_refl [OF assms(1,2)] show False by simp
  qed
qed

lemma consistent_le_iff:
  assumes "consistentComparator cmp xs" and "a \<in> set xs" and "b \<in> set xs"
  shows "\<not> cmp b a < 0 \<longleftrightarrow> cmp a b \<le> 0"
  using consistent_flip [OF assms] consistent_flip' [OF assms(1) assms(3) assms(2)] by fastforce

lemma consistent_le_trans:
  assumes c: "consistentComparator cmp xs"
    and m: "a \<in> set xs" "b \<in> set xs" "d \<in> set xs"
    and ab: "cmp a b \<le> 0" and bd: "cmp b d \<le> 0"
  shows "cmp a d \<le> 0"
proof (rule ccontr)
  assume "\<not> cmp a d \<le> 0"
  then have ad: "cmp a d > 0" by simp
  then have da: "cmp d a < 0" using consistent_flip [OF c m(1) m(3)] by simp
  have eqs: "\<And>x y z. x \<in> set xs \<Longrightarrow> y \<in> set xs \<Longrightarrow> z \<in> set xs \<Longrightarrow>
                cmp x y = 0 \<Longrightarrow> cmp y z = 0 \<Longrightarrow> cmp x z = 0"
    and sym: "\<And>x y. x \<in> set xs \<Longrightarrow> y \<in> set xs \<Longrightarrow> cmp x y = 0 \<Longrightarrow> cmp y x = 0"
    and lts: "\<And>x y z. x \<in> set xs \<Longrightarrow> y \<in> set xs \<Longrightarrow> z \<in> set xs \<Longrightarrow>
                cmp x y < 0 \<Longrightarrow> cmp y z < 0 \<Longrightarrow> cmp x z < 0"
    using c unfolding consistentComparator_def by blast+
  consider "cmp a b < 0" | "cmp a b = 0" using ab by linarith
  then show False
  proof cases
    case 1
    with da have "cmp d b < 0" using lts [of d a b] m by simp
    then have "cmp b d > 0" using consistent_flip' [OF c m(3) m(2)] by simp
    with bd show False by simp
  next
    case 2
    consider "cmp b d < 0" | "cmp b d = 0" using bd by linarith
    then show False
    proof cases
      case 1
      with da have "cmp b a < 0" using lts [of b d a] m by simp
      moreover have "cmp b a = 0" using sym [of a b] 2 m by simp
      ultimately show False by simp
    next
      case 2
      with \<open>cmp a b = 0\<close> have "cmp a d = 0" using eqs [of a b d] m by simp
      with ad show False by simp
    qed
  qed
qed

lemma consistent_total:
  assumes "consistentComparator cmp xs" and "a \<in> set xs" and "b \<in> set xs"
  shows "cmp a b \<le> 0 \<or> cmp b a \<le> 0"
  using consistent_flip [OF assms] by fastforce

text \<open>Insertion keeps what it is given, in order, and never moves ties apart.\<close>

lemma mset_insertBy: "mset (insertBy cmp x ys) = add_mset x (mset ys)"
  by (induction ys) auto

lemma mset_insertionSort: "mset (insertionSort cmp xs) = mset xs"
  by (induction xs) (auto simp: mset_insertBy)

lemma set_insertionSort: "set (insertionSort cmp xs) = set xs"
  using mset_insertionSort [of cmp xs] by (metis set_mset_mset)

lemma insertBy_filter:
  assumes "\<And>y. y \<in> set ys \<Longrightarrow> P x \<Longrightarrow> P y \<Longrightarrow> cmp x y \<le> 0"
  shows "filter P (insertBy cmp x ys) = (if P x then x # filter P ys else filter P ys)"
  using assms by (induction ys) auto

lemma insertionSort_filter:
  assumes "\<And>x y. x \<in> set xs \<Longrightarrow> y \<in> set xs \<Longrightarrow> P x \<Longrightarrow> P y \<Longrightarrow> cmp x y \<le> 0"
  shows "filter P (insertionSort cmp xs) = filter P xs"
  using assms
proof (induction xs)
  case Nil
  show ?case by simp
next
  case (Cons x xs)
  have "filter P (insertBy cmp x (insertionSort cmp xs))
          = (if P x then x # filter P (insertionSort cmp xs) else filter P (insertionSort cmp xs))"
    by (rule insertBy_filter) (simp add: Cons.prems set_insertionSort)
  moreover have "filter P (insertionSort cmp xs) = filter P xs"
    by (rule Cons.IH) (simp add: Cons.prems)
  ultimately show ?case by simp
qed

lemma insertBy_sorted:
  assumes total: "\<And>b. b \<in> set ys \<Longrightarrow> cmp x b \<le> 0 \<or> cmp b x \<le> 0"
    and trans: "\<And>b d. b \<in> set ys \<Longrightarrow> d \<in> set ys \<Longrightarrow> cmp x b \<le> 0 \<Longrightarrow> cmp b d \<le> 0 \<Longrightarrow> cmp x d \<le> 0"
  shows "sorted_wrt (\<lambda>a b. cmp a b \<le> 0) ys \<Longrightarrow> sorted_wrt (\<lambda>a b. cmp a b \<le> 0) (insertBy cmp x ys)"
  using assms
proof (induction ys)
  case Nil
  show ?case by simp
next
  case (Cons y ys)
  show ?case
  proof (cases "cmp x y \<le> 0")
    case True
    then have "\<forall>z\<in>set ys. cmp x z \<le> 0"
      using Cons.prems by auto
    with True Cons.prems(1) show ?thesis by simp
  next
    case False
    then have yx: "cmp y x \<le> 0" using Cons.prems(2) [of y] by simp
    have "sorted_wrt (\<lambda>a b. cmp a b \<le> 0) (insertBy cmp x ys)"
      using Cons.prems by (intro Cons.IH) auto
    moreover have "\<forall>z\<in>set (insertBy cmp x ys). cmp y z \<le> 0"
      using yx Cons.prems(1) by (metis insert_iff mset_insertBy set_mset_add_mset_insert set_mset_mset sorted_wrt.simps(2))
    ultimately show ?thesis using False by simp
  qed
qed

lemma insertionSort_sorted:
  assumes c: "consistentComparator cmp xs"
  shows "sorted_wrt (\<lambda>a b. cmp a b \<le> 0) (insertionSort cmp xs)"
proof -
  have "set ys \<subseteq> set xs \<Longrightarrow> sorted_wrt (\<lambda>a b. cmp a b \<le> 0) (insertionSort cmp ys)" for ys
  proof (induction ys)
    case Nil
    show ?case by simp
  next
    case (Cons y ys)
    have sub: "set (insertionSort cmp ys) \<subseteq> set xs" and y: "y \<in> set xs"
      using Cons.prems by (auto simp: set_insertionSort)
    have "sorted_wrt (\<lambda>a b. cmp a b \<le> 0) (insertBy cmp y (insertionSort cmp ys))"
    proof (rule insertBy_sorted)
      fix b assume "b \<in> set (insertionSort cmp ys)"
      then show "cmp y b \<le> 0 \<or> cmp b y \<le> 0"
        using consistent_total [OF c y] sub by blast
    next
      fix b d assume "b \<in> set (insertionSort cmp ys)" "d \<in> set (insertionSort cmp ys)"
        "cmp y b \<le> 0" "cmp b d \<le> 0"
      then show "cmp y d \<le> 0"
        using consistent_le_trans [OF c y] sub by blast
    next
      show "sorted_wrt (\<lambda>a b. cmp a b \<le> 0) (insertionSort cmp ys)"
        using Cons by simp
    qed
    then show ?case by simp
  qed
  then show ?thesis by simp
qed

lemma insertionSort_sortedStable:
  assumes c: "consistentComparator cmp xs"
  shows "sortedStable cmp xs (insertionSort cmp xs)"
proof -
  have ord: "sorted_wrt (\<lambda>a b. \<not> cmp b a < 0) (insertionSort cmp xs)"
    using insertionSort_sorted [OF c]
    by (rule sorted_wrt_mono_rel [rotated])
       (simp add: consistent_le_iff [OF c] set_insertionSort)
  have ties: "filter (\<lambda>r. cmp a r = 0) (insertionSort cmp xs) = filter (\<lambda>r. cmp a r = 0) xs"
    if a: "a \<in> set xs" for a
  proof (rule insertionSort_filter)
    fix x y assume m: "x \<in> set xs" "y \<in> set xs" and "cmp a x = 0" "cmp a y = 0"
    then have "cmp x a = 0" "cmp a y = 0"
      using c a unfolding consistentComparator_def by blast+
    then have "cmp x y = 0"
      using c a m unfolding consistentComparator_def by blast
    then show "cmp x y \<le> 0" by simp
  qed
  show ?thesis
    unfolding sortedStable_def using ord ties by (simp add: mset_insertionSort)
qed

text \<open>Two arrangements that are in order and keep the ties in the same order are equal.\<close>

lemma sorted_stable_unique:
  assumes "mset ys = mset zs"
    and "sorted_wrt (\<lambda>a b. \<not> cmp b a < 0) ys"
    and "sorted_wrt (\<lambda>a b. \<not> cmp b a < 0) zs"
    and "\<forall>a\<in>set ys. filter (\<lambda>r. cmp a r = 0) ys = filter (\<lambda>r. cmp a r = 0) zs"
    and "\<forall>a\<in>set ys. cmp a a = 0"
    and "\<forall>a\<in>set ys. \<forall>b\<in>set ys. \<not> cmp a b < 0 \<longrightarrow> \<not> cmp b a < 0 \<longrightarrow> cmp a b = 0"
  shows "ys = zs"
  using assms
proof (induction ys arbitrary: zs)
  case Nil
  then show ?case by simp
next
  case (Cons y ys)
  from Cons.prems(1) obtain z zs' where zs: "zs = z # zs'"
    by (cases zs) auto
  have sets: "set (y # ys) = set (z # zs')"
    using Cons.prems(1) zs by (metis set_mset_mset)
  have yz: "y = z"
  proof (rule ccontr)
    assume ne: "y \<noteq> z"
    then have "z \<in> set ys" and "y \<in> set zs'" using sets by auto
    then have "\<not> cmp z y < 0" and "\<not> cmp y z < 0"
      using Cons.prems(2,3) zs by auto
    moreover have "z \<in> set (y # ys)" using sets by auto
    ultimately have tie: "cmp y z = 0" using Cons.prems(6) by auto
    have "filter (\<lambda>r. cmp y r = 0) (y # ys) = filter (\<lambda>r. cmp y r = 0) (z # zs')"
      using Cons.prems(4) zs by auto
    moreover have "cmp y y = 0" using Cons.prems(5) by simp
    ultimately show False using tie ne by simp
  qed
  have "ys = zs'"
  proof (rule Cons.IH)
    show "mset ys = mset zs'" using Cons.prems(1) zs yz by simp
    show "sorted_wrt (\<lambda>a b. \<not> cmp b a < 0) ys" using Cons.prems(2) by simp
    show "sorted_wrt (\<lambda>a b. \<not> cmp b a < 0) zs'" using Cons.prems(3) zs by simp
    show "\<forall>a\<in>set ys. filter (\<lambda>r. cmp a r = 0) ys = filter (\<lambda>r. cmp a r = 0) zs'"
    proof
      fix a assume "a \<in> set ys"
      then have "filter (\<lambda>r. cmp a r = 0) (y # ys) = filter (\<lambda>r. cmp a r = 0) (y # zs')"
        using Cons.prems(4) zs yz by auto
      then show "filter (\<lambda>r. cmp a r = 0) ys = filter (\<lambda>r. cmp a r = 0) zs'"
        by (cases "cmp a y = 0") simp_all
    qed
    show "\<forall>a\<in>set ys. cmp a a = 0" using Cons.prems(5) by simp
    show "\<forall>a\<in>set ys. \<forall>b\<in>set ys. \<not> cmp a b < 0 \<longrightarrow> \<not> cmp b a < 0 \<longrightarrow> cmp a b = 0"
      using Cons.prems(6) by simp
  qed
  with yz zs show ?case by simp
qed

lemma sortedStable_insertionSort:
  assumes c: "consistentComparator cmp xs" and s: "sortedStable cmp xs ys"
  shows "ys = insertionSort cmp xs"
proof (rule sorted_stable_unique [of _ _ cmp])
  have i: "sortedStable cmp xs (insertionSort cmp xs)"
    by (rule insertionSort_sortedStable [OF c])
  have set_ys: "set ys = set xs"
    using s unfolding sortedStable_def by (metis set_mset_mset)
  show "mset ys = mset (insertionSort cmp xs)"
    using s i by (simp add: sortedStable_def)
  show "sorted_wrt (\<lambda>a b. \<not> cmp b a < 0) ys"
    using s by (simp add: sortedStable_def)
  show "sorted_wrt (\<lambda>a b. \<not> cmp b a < 0) (insertionSort cmp xs)"
    using i by (simp add: sortedStable_def)
  show "\<forall>a\<in>set ys. filter (\<lambda>r. cmp a r = 0) ys = filter (\<lambda>r. cmp a r = 0) (insertionSort cmp xs)"
    using s i set_ys by (simp add: sortedStable_def)
  show "\<forall>a\<in>set ys. cmp a a = 0"
    using consistent_refl [OF c] set_ys by simp
  show "\<forall>a\<in>set ys. \<forall>b\<in>set ys. \<not> cmp a b < 0 \<longrightarrow> \<not> cmp b a < 0 \<longrightarrow> cmp a b = 0"
  proof (intro ballI impI)
    fix a b assume m: "a \<in> set ys" "b \<in> set ys" and n: "\<not> cmp a b < 0" "\<not> cmp b a < 0"
    have "cmp a b > 0 \<Longrightarrow> cmp b a < 0"
      using consistent_flip [OF c, of a b] m set_ys by simp
    with n show "cmp a b = 0" by linarith
  qed
qed

text \<open>The example engine: its binary insertion after the first run.\<close>

lemma consistent_lt_le:
  assumes c: "consistentComparator cmp us"
    and m: "p \<in> set us" "a \<in> set us" "b \<in> set us"
    and pa: "cmp p a < 0" and ab: "cmp a b \<le> 0"
  shows "cmp p b < 0"
proof (rule ccontr)
  assume "\<not> cmp p b < 0"
  then have "cmp b p \<le> 0"
    using consistent_le_iff [OF c m(3) m(1)] by simp
  with ab have "cmp a p \<le> 0"
    using consistent_le_trans [OF c m(2) m(3) m(1)] by simp
  then have "\<not> cmp p a < 0"
    using consistent_le_iff [OF c m(2) m(1)] by simp
  with pa show False by simp
qed

text \<open>The binary search stops at the first element the pivot stands before.\<close>

lemma v8InsertionPoint_bounds:
  assumes "consistentComparator cmp us" and "pivot \<in> set us" and "set S \<subseteq> set us"
    and "sorted_wrt (\<lambda>a b. cmp a b \<le> 0) S"
    and "left \<le> right" and "right \<le> length S"
    and "\<forall>i<left. \<not> cmp pivot (S ! i) < 0"
    and "\<forall>i. right \<le> i \<and> i < length S \<longrightarrow> cmp pivot (S ! i) < 0"
  shows "v8InsertionPoint cmp pivot S left right \<le> length S
       \<and> (\<forall>i<v8InsertionPoint cmp pivot S left right. \<not> cmp pivot (S ! i) < 0)
       \<and> (\<forall>i. v8InsertionPoint cmp pivot S left right \<le> i \<and> i < length S
              \<longrightarrow> cmp pivot (S ! i) < 0)"
  using assms
proof (induction cmp pivot S left right rule: v8InsertionPoint.induct)
  case (1 cmp pivot S left right)
  let ?mid = "left + (right - left) div 2"
  show ?case
  proof (cases "left < right")
    case False
    with "1.prems" have "left = right" by simp
    with False "1.prems" show ?thesis
      by (subst (1 2 3) v8InsertionPoint.simps) simp
  next
    case lr: True
    then have mid: "left \<le> ?mid" "?mid < right" by auto
    then have midlen: "?mid < length S" using "1.prems"(6) by simp
    have inS: "\<And>i. i < length S \<Longrightarrow> S ! i \<in> set us"
      using "1.prems"(3) by (auto simp: subset_iff)
    show ?thesis
    proof (cases "cmp pivot (S ! ?mid) < 0")
      case True
      have after: "\<forall>i. ?mid \<le> i \<and> i < length S \<longrightarrow> cmp pivot (S ! i) < 0"
      proof (intro allI impI)
        fix i assume i: "?mid \<le> i \<and> i < length S"
        show "cmp pivot (S ! i) < 0"
        proof (cases "i = ?mid")
          case True
          with \<open>cmp pivot (S ! ?mid) < 0\<close> show ?thesis by simp
        next
          case False
          with i have "?mid < i" by simp
          then have "cmp (S ! ?mid) (S ! i) \<le> 0"
            using sorted_wrt_nth_less [OF "1.prems"(4), of ?mid i] i by simp
          then show ?thesis
            using consistent_lt_le [OF "1.prems"(1) "1.prems"(2) inS [OF midlen] inS [of i]]
              \<open>cmp pivot (S ! ?mid) < 0\<close> i by simp
        qed
      qed
      have "v8InsertionPoint cmp pivot S left ?mid \<le> length S
       \<and> (\<forall>i<v8InsertionPoint cmp pivot S left ?mid. \<not> cmp pivot (S ! i) < 0)
       \<and> (\<forall>i. v8InsertionPoint cmp pivot S left ?mid \<le> i \<and> i < length S
              \<longrightarrow> cmp pivot (S ! i) < 0)"
        using "1.IH"(1) [OF lr True "1.prems"(1,2,3,4) mid(1) _ "1.prems"(7) after] midlen
        by simp
      moreover have "v8InsertionPoint cmp pivot S left right = v8InsertionPoint cmp pivot S left ?mid"
        using lr True by (subst v8InsertionPoint.simps) simp
      ultimately show ?thesis by simp
    next
      case False
      have before: "\<forall>i<?mid + 1. \<not> cmp pivot (S ! i) < 0"
      proof (intro allI impI)
        fix i assume i: "i < ?mid + 1"
        show "\<not> cmp pivot (S ! i) < 0"
        proof (cases "i = ?mid")
          case True
          with \<open>\<not> cmp pivot (S ! ?mid) < 0\<close> show ?thesis by simp
        next
          case ne: False
          with i have "i < ?mid" by simp
          then have "cmp (S ! i) (S ! ?mid) \<le> 0"
            using sorted_wrt_nth_less [OF "1.prems"(4), of i ?mid] midlen by simp
          moreover have "i < length S" using \<open>i < ?mid\<close> midlen by simp
          ultimately show ?thesis
            using consistent_lt_le [OF "1.prems"(1) "1.prems"(2) inS [of i] inS [OF midlen]]
              \<open>\<not> cmp pivot (S ! ?mid) < 0\<close> by blast
        qed
      qed
      have "v8InsertionPoint cmp pivot S (?mid + 1) right \<le> length S
       \<and> (\<forall>i<v8InsertionPoint cmp pivot S (?mid + 1) right. \<not> cmp pivot (S ! i) < 0)
       \<and> (\<forall>i. v8InsertionPoint cmp pivot S (?mid + 1) right \<le> i \<and> i < length S
              \<longrightarrow> cmp pivot (S ! i) < 0)"
        using "1.IH"(2) [OF lr False "1.prems"(1,2,3,4) _ "1.prems"(6) before "1.prems"(8)] mid
        by simp
      moreover have "v8InsertionPoint cmp pivot S left right
                       = v8InsertionPoint cmp pivot S (?mid + 1) right"
        using lr False by (subst v8InsertionPoint.simps) simp
      ultimately show ?thesis by simp
    qed
  qed
qed

lemma v8InsertionPoint_split:
  assumes c: "consistentComparator cmp us" and p: "pivot \<in> set us" and S: "set S \<subseteq> set us"
    and s: "sorted_wrt (\<lambda>a b. cmp a b \<le> 0) S"
  shows "(\<forall>e\<in>set (take (v8InsertionPoint cmp pivot S 0 (length S)) S). \<not> cmp pivot e < 0)
       \<and> (\<forall>e\<in>set (drop (v8InsertionPoint cmp pivot S 0 (length S)) S). cmp pivot e < 0)"
proof -
  let ?k = "v8InsertionPoint cmp pivot S 0 (length S)"
  have b: "?k \<le> length S \<and> (\<forall>i<?k. \<not> cmp pivot (S ! i) < 0)
       \<and> (\<forall>i. ?k \<le> i \<and> i < length S \<longrightarrow> cmp pivot (S ! i) < 0)"
    by (rule v8InsertionPoint_bounds [OF c p S s]) simp_all
  have "\<not> cmp pivot e < 0" if "e \<in> set (take ?k S)" for e
  proof -
    from that obtain i where "i < length (take ?k S)" and "take ?k S ! i = e"
      by (auto simp: in_set_conv_nth)
    then show ?thesis using b by auto
  qed
  moreover have "cmp pivot e < 0" if "e \<in> set (drop ?k S)" for e
  proof -
    from that obtain i where "i < length (drop ?k S)" and "drop ?k S ! i = e"
      by (auto simp: in_set_conv_nth)
    then have "?k + i < length S" and "S ! (?k + i) = e" using b by auto
    then show ?thesis using b by (metis le_add1)
  qed
  ultimately show ?thesis by blast
qed

text \<open>Each insertion keeps the part in order and puts the pivot behind its ties.\<close>

lemma v8InsertAll_sortedStable:
  assumes c: "consistentComparator cmp us"
  shows "set S \<subseteq> set us \<Longrightarrow> set rest \<subseteq> set us \<Longrightarrow> sorted_wrt (\<lambda>a b. cmp a b \<le> 0) S \<Longrightarrow>
     sorted_wrt (\<lambda>a b. cmp a b \<le> 0) (v8InsertAll cmp S rest)
     \<and> mset (v8InsertAll cmp S rest) = mset S + mset rest
     \<and> (\<forall>a\<in>set us. filter (\<lambda>r. cmp a r = 0) (v8InsertAll cmp S rest)
                       = filter (\<lambda>r. cmp a r = 0) (S @ rest))"
proof (induction rest arbitrary: S)
  case Nil
  then show ?case by simp
next
  case (Cons pivot rest)
  let ?k = "v8InsertionPoint cmp pivot S 0 (length S)"
  let ?S' = "take ?k S @ pivot # drop ?k S"
  have p: "pivot \<in> set us" using Cons.prems(2) by simp
  have split: "(\<forall>e\<in>set (take ?k S). \<not> cmp pivot e < 0) \<and> (\<forall>e\<in>set (drop ?k S). cmp pivot e < 0)"
    by (rule v8InsertionPoint_split [OF c p Cons.prems(1) Cons.prems(3)])
  have tk: "set (take ?k S) \<subseteq> set us" and dr: "set (drop ?k S) \<subseteq> set us"
    using Cons.prems(1) set_take_subset [of ?k S] set_drop_subset [of ?k S] by blast+
  have S: "sorted_wrt (\<lambda>a b. cmp a b \<le> 0) (take ?k S @ drop ?k S)"
    using Cons.prems(3) by simp
  have low: "\<forall>e\<in>set (take ?k S). cmp e pivot \<le> 0"
    using split tk consistent_le_iff [OF c _ p] by blast
  have high: "\<forall>e\<in>set (drop ?k S). cmp pivot e \<le> 0"
    using split by fastforce
  have sorted': "sorted_wrt (\<lambda>a b. cmp a b \<le> 0) ?S'"
    using S low high unfolding sorted_wrt_append by simp
  have sub': "set ?S' \<subseteq> set us"
    using tk dr p by simp
  have IH: "sorted_wrt (\<lambda>a b. cmp a b \<le> 0) (v8InsertAll cmp ?S' rest)
     \<and> mset (v8InsertAll cmp ?S' rest) = mset ?S' + mset rest
     \<and> (\<forall>a\<in>set us. filter (\<lambda>r. cmp a r = 0) (v8InsertAll cmp ?S' rest)
                       = filter (\<lambda>r. cmp a r = 0) (?S' @ rest))"
    using Cons.IH [OF sub' _ sorted'] Cons.prems(2) by simp
  have msetS: "mset ?S' = add_mset pivot (mset S)"
    by (metis append_take_drop_id mset_append union_mset_add_mset_right mset.simps(2))
  have ties: "filter (\<lambda>r. cmp a r = 0) ?S' = filter (\<lambda>r. cmp a r = 0) (S @ [pivot])"
    if a: "a \<in> set us" for a
  proof (cases "cmp a pivot = 0")
    case False
    have "filter (\<lambda>r. cmp a r = 0) ?S'
            = filter (\<lambda>r. cmp a r = 0) (take ?k S) @ filter (\<lambda>r. cmp a r = 0) (drop ?k S)"
      using False by simp
    also have "\<dots> = filter (\<lambda>r. cmp a r = 0) S"
      by (metis append_take_drop_id filter_append)
    finally show ?thesis using False by simp
  next
    case True
    have "cmp a e \<noteq> 0" if e: "e \<in> set (drop ?k S)" for e
    proof
      assume "cmp a e = 0"
      moreover have "cmp pivot a = 0"
        using True c a p unfolding consistentComparator_def by blast
      moreover have "e \<in> set us" using e dr by blast
      ultimately have "cmp pivot e = 0"
        using c a p unfolding consistentComparator_def by blast
      with split e show False by auto
    qed
    then have none: "filter (\<lambda>r. cmp a r = 0) (drop ?k S) = []"
      by (simp add: filter_empty_conv)
    have "filter (\<lambda>r. cmp a r = 0) S
            = filter (\<lambda>r. cmp a r = 0) (take ?k S) @ filter (\<lambda>r. cmp a r = 0) (drop ?k S)"
      by (metis append_take_drop_id filter_append)
    with none show ?thesis using True by simp
  qed
  have step: "v8InsertAll cmp S (pivot # rest) = v8InsertAll cmp ?S' rest"
    by (simp add: Let_def)
  show ?case
    unfolding step
  proof (intro conjI ballI)
    show "sorted_wrt (\<lambda>a b. cmp a b \<le> 0) (v8InsertAll cmp ?S' rest)"
      using IH by blast
    show "mset (v8InsertAll cmp ?S' rest) = mset S + mset (pivot # rest)"
      using IH msetS by simp
    fix a assume a: "a \<in> set us"
    have "filter (\<lambda>r. cmp a r = 0) (v8InsertAll cmp ?S' rest)
            = filter (\<lambda>r. cmp a r = 0) (?S' @ rest)"
      using IH a by blast
    also have "\<dots> = filter (\<lambda>r. cmp a r = 0) ?S' @ filter (\<lambda>r. cmp a r = 0) rest"
      by (rule filter_append)
    also have "\<dots> = filter (\<lambda>r. cmp a r = 0) (S @ [pivot]) @ filter (\<lambda>r. cmp a r = 0) rest"
      using ties [OF a] by (simp only:)
    also have "\<dots> = filter (\<lambda>r. cmp a r = 0) (S @ pivot # rest)"
      by simp
    finally show "filter (\<lambda>r. cmp a r = 0) (v8InsertAll cmp ?S' rest)
                    = filter (\<lambda>r. cmp a r = 0) (S @ pivot # rest)" .
  qed
qed

text \<open>The first run, turned round when it descends, is in order and keeps its ties.\<close>

lemma v8RunLength_run:
  "n \<le> v8RunLength cmp d previous rest n
   \<and> v8RunLength cmp d previous rest n \<le> n + length rest
   \<and> successively (\<lambda>a b. if d then cmp b a < 0 else \<not> cmp b a < 0)
        (previous # take (v8RunLength cmp d previous rest n - n) rest)"
proof (induction rest arbitrary: previous n)
  case Nil
  show ?case by simp
next
  case (Cons current rest)
  show ?case
  proof (cases "if d then cmp current previous \<ge> 0 else cmp current previous < 0")
    case True
    then show ?thesis by simp
  next
    case False
    then have step: "v8RunLength cmp d previous (current # rest) n
                       = v8RunLength cmp d current rest (n + 1)"
      by simp
    have cont: "if d then cmp current previous < 0 else \<not> cmp current previous < 0"
      using False by (simp split: if_splits)
    from Cons.IH [of "n + 1" current]
    have IH: "n + 1 \<le> v8RunLength cmp d current rest (n + 1)"
      "v8RunLength cmp d current rest (n + 1) \<le> n + 1 + length rest"
      "successively (\<lambda>a b. if d then cmp b a < 0 else \<not> cmp b a < 0)
        (current # take (v8RunLength cmp d current rest (n + 1) - (n + 1)) rest)"
      by simp_all
    have "v8RunLength cmp d current rest (n + 1) - n
            = Suc (v8RunLength cmp d current rest (n + 1) - (n + 1))"
      using IH(1) by simp
    then show ?thesis
      unfolding step using IH cont by simp
  qed
qed


lemma strict_run_ties:
  assumes c: "consistentComparator cmp us" and sub: "set l \<subseteq> set us" and a: "a \<in> set us"
    and s: "sorted_wrt (\<lambda>x y. cmp y x < 0) l"
  shows "rev (filter (\<lambda>r. cmp a r = 0) l) = filter (\<lambda>r. cmp a r = 0) l"
proof (cases "filter (\<lambda>r. cmp a r = 0) l")
  case Nil
  then show ?thesis by simp
next
  case (Cons u vs)
  have "vs = []"
  proof (cases vs)
    case Nil
    then show ?thesis .
  next
    case (Cons v ws)
    have "sorted_wrt (\<lambda>x y. cmp y x < 0) (filter (\<lambda>r. cmp a r = 0) l)"
      using s by (rule sorted_wrt_filter)
    then have vu: "cmp v u < 0"
      using \<open>filter (\<lambda>r. cmp a r = 0) l = u # vs\<close> Cons by simp
    have "u \<in> set (filter (\<lambda>r. cmp a r = 0) l)" and "v \<in> set (filter (\<lambda>r. cmp a r = 0) l)"
      using \<open>filter (\<lambda>r. cmp a r = 0) l = u # vs\<close> Cons by simp_all
    then have u: "u \<in> set us" "cmp a u = 0" and v: "v \<in> set us" "cmp a v = 0"
      using sub by auto
    have "cmp v a = 0"
      using c a v unfolding consistentComparator_def by blast
    with u have "cmp v u = 0"
      using c a v(1) unfolding consistentComparator_def by blast
    with vu show ?thesis by simp
  qed
  with Cons show ?thesis by simp
qed

lemma v8CountAndMakeRun_run:
  assumes c: "consistentComparator cmp xs" and len: "2 \<le> length xs"
    and run: "v8CountAndMakeRun cmp xs = (ys, n)"
  shows "sorted_wrt (\<lambda>a b. cmp a b \<le> 0) (take n ys)
       \<and> set (take n ys) \<subseteq> set xs
       \<and> drop n ys = drop n xs
       \<and> mset (take n ys) = mset (take n xs)
       \<and> (\<forall>a\<in>set xs. filter (\<lambda>r. cmp a r = 0) (take n ys) = filter (\<lambda>r. cmp a r = 0) (take n xs))"
proof -
  from len obtain x0 x1 rest where xs: "xs = x0 # x1 # rest"
    by (cases xs; cases "tl xs") auto
  define d where "d = (cmp x1 x0 < 0)"
  let ?R = "\<lambda>a b. if d then cmp b a < 0 else \<not> cmp b a < 0"
  have n: "n = v8RunLength cmp d x1 rest 2"
    and ys: "ys = (if d then rev (take n xs) @ drop n xs else xs)"
    using run unfolding xs v8CountAndMakeRun_def d_def by (auto simp: Let_def)
  have bounds: "2 \<le> n" "n \<le> length xs"
    and succ: "successively ?R (x1 # take (n - 2) rest)"
    using v8RunLength_run [of 2 cmp d x1 rest] unfolding n [symmetric] xs by simp_all
  have tk: "take n xs = x0 # x1 # take (n - 2) rest"
    using bounds(1) unfolding xs by (cases n; cases "n - 1") auto
  have "?R x0 x1"
    by (simp add: d_def)
  with succ have "successively ?R (take n xs)"
    unfolding tk by simp
  moreover have sub: "set (take n xs) \<subseteq> set xs"
    by (rule set_take_subset)
  ultimately have sorted: "sorted_wrt ?R (take n xs)"
  proof (subst (asm) successively_iff_sorted_wrt_strong)
    fix x y z assume "x \<in> set (take n xs)" "y \<in> set (take n xs)" "z \<in> set (take n xs)"
    then have m: "x \<in> set xs" "y \<in> set xs" "z \<in> set xs"
      using sub by blast+
    assume "?R x y" and "?R y z"
    then show "?R x z"
    proof (cases d)
      case True
      assume "?R x y" and "?R y z"
      with True have "cmp z y < 0" "cmp y x < 0" by simp_all
      then have "cmp z x < 0"
        using c m unfolding consistentComparator_def by blast
      with True show ?thesis by simp
    next
      case False
      assume "?R x y" and "?R y z"
      with False have "cmp x y \<le> 0" "cmp y z \<le> 0"
        using consistent_le_iff [OF c] m by simp_all
      then have "cmp x z \<le> 0"
        using consistent_le_trans [OF c m(1) m(2) m(3)] by simp
      with False show ?thesis
        using consistent_le_iff [OF c m(1) m(3)] by simp
    qed
  qed
  show ?thesis
  proof (cases d)
    case False
    then have "ys = xs" using ys by simp
    moreover have "sorted_wrt (\<lambda>a b. \<not> cmp b a < 0) (take n xs)"
      using sorted False by simp
    then have "sorted_wrt (\<lambda>a b. cmp a b \<le> 0) (take n xs)"
      by (rule sorted_wrt_mono_rel [rotated])
         (simp add: consistent_le_iff [OF c] sub [THEN subsetD])
    ultimately show ?thesis using sub by simp
  next
    case True
    then have strict: "sorted_wrt (\<lambda>a b. cmp b a < 0) (take n xs)"
      using sorted by simp
    have tky: "take n ys = rev (take n xs)" and dry: "drop n ys = drop n xs"
      using True ys bounds(2) by simp_all
    have "sorted_wrt (\<lambda>a b. cmp b a \<le> 0) (take n xs)"
      using strict by (rule sorted_wrt_mono_rel [rotated]) simp
    then have "sorted_wrt (\<lambda>a b. cmp a b \<le> 0) (take n ys)"
      unfolding tky sorted_wrt_rev .
    moreover have "filter (\<lambda>r. cmp a r = 0) (take n ys) = filter (\<lambda>r. cmp a r = 0) (take n xs)"
      if "a \<in> set xs" for a
      unfolding tky rev_filter [symmetric]
      by (rule strict_run_ties [OF c sub that strict])
    ultimately show ?thesis
      using sub dry tky by simp
  qed
qed

text \<open>So the model of the engine's sort meets the contract, and is the arrangement it fixes.\<close>

lemma v8Sort_sortedStable:
  assumes c: "consistentComparator cmp xs"
  shows "sortedStable cmp xs (v8Sort cmp xs)"
proof (cases "length xs < 2")
  case True
  then have "xs = [] \<or> (\<exists>x. xs = [x])"
    by (cases xs; cases "tl xs") auto
  then show ?thesis
    using True by (auto simp: v8Sort_def sortedStable_def)
next
  case False
  obtain ys n where run: "v8CountAndMakeRun cmp xs = (ys, n)"
    by (cases "v8CountAndMakeRun cmp xs")
  from False have len: "2 \<le> length xs" by simp
  note r = v8CountAndMakeRun_run [OF c len run]
  have v: "v8Sort cmp xs = v8InsertAll cmp (take n ys) (drop n ys)"
    using False run by (simp add: v8Sort_def)
  have "set (drop n ys) \<subseteq> set xs"
    using r set_drop_subset [of n xs] by simp
  with r have i: "sorted_wrt (\<lambda>a b. cmp a b \<le> 0) (v8Sort cmp xs)
     \<and> mset (v8Sort cmp xs) = mset (take n ys) + mset (drop n ys)
     \<and> (\<forall>a\<in>set xs. filter (\<lambda>r. cmp a r = 0) (v8Sort cmp xs)
                       = filter (\<lambda>r. cmp a r = 0) (take n ys @ drop n ys))"
    unfolding v by (intro v8InsertAll_sortedStable [OF c]) simp_all
  have m: "mset (v8Sort cmp xs) = mset xs"
    using i r by (metis append_take_drop_id mset_append)
  then have sets: "set (v8Sort cmp xs) = set xs"
    by (metis set_mset_mset)
  have ord: "sorted_wrt (\<lambda>a b. \<not> cmp b a < 0) (v8Sort cmp xs)"
    using i [THEN conjunct1]
    by (rule sorted_wrt_mono_rel [rotated]) (simp add: consistent_le_iff [OF c] sets)
  have ties: "filter (\<lambda>r. cmp a r = 0) (v8Sort cmp xs) = filter (\<lambda>r. cmp a r = 0) xs"
    if a: "a \<in> set xs" for a
  proof -
    have "filter (\<lambda>r. cmp a r = 0) (v8Sort cmp xs)
            = filter (\<lambda>r. cmp a r = 0) (take n ys @ drop n ys)"
      using i a by blast
    also have "\<dots> = filter (\<lambda>r. cmp a r = 0) (take n ys) @ filter (\<lambda>r. cmp a r = 0) (drop n ys)"
      by (rule filter_append)
    also have "\<dots> = filter (\<lambda>r. cmp a r = 0) (take n xs) @ filter (\<lambda>r. cmp a r = 0) (drop n xs)"
      using r a by simp
    also have "\<dots> = filter (\<lambda>r. cmp a r = 0) xs"
      by (metis append_take_drop_id filter_append)
    finally show ?thesis .
  qed
  show ?thesis
    unfolding sortedStable_def using m ord ties by simp
qed

lemma v8Sort_insertionSort:
  "consistentComparator cmp xs \<Longrightarrow> v8Sort cmp xs = insertionSort cmp xs"
  by (rule sortedStable_insertionSort [OF _ v8Sort_sortedStable])

text \<open>The sort of the example runtime meets the conditions for every consistent comparator.\<close>

lemma exampleBuiltins_arraySort:
  "consistentComparator cmp xs \<Longrightarrow> sortedStable cmp xs (arraySort exampleBuiltins cmp xs)"
  by (simp add: exampleBuiltins_def v8Sort_sortedStable)

text \<open>The result record after a grouping step that did not throw.\<close>

lemma executeDataOperations_limit:
  "applyGrouping js p (applyFilters js p rows) = Inr g \<Longrightarrow>
   executeDataOperations js rows p
     = Inr \<lparr>plan = p, resultCount = length (applyLimit js p (applySorting js p g)),
            results = applyLimit js p (applySorting js p g)\<rparr>"
  by (simp add: executeDataOperations_def Let_def)

text \<open>
  Claim C8 (the same rows and plan give the same result, ties in their order), as it
  holds.  The result is a function of the rows, the plan and the runtime; what the
  runtime decides is the order \<open>result.sort\<close> returns.  The comparator returns 0
  whenever the two records have equal values under the sort column.  When every record
  to be sorted has a string under the sort column, or every record a finite number, the
  comparator is consistent; every sort that meets the conditions of ECMAScript then
  returns one and the same arrangement, that of \<open>insertionSort\<close>, whatever the engine,
  so the result of \<open>executeDataOperations\<close> is fixed by the rows and the plan; and in
  it any two records with equal sort values stand in the order they had before.
\<close>

theorem sort_fixed_when_keys_present:
  assumes "sortBy p = Some sb"
    and "(\<forall>r\<in>set recs. \<exists>s. recordGet js r (sortColumn sb) = JStr s)
         \<or> (\<forall>r\<in>set recs. \<exists>q. recordGet js r (sortColumn sb) = JNum (Fin q))"
    and "consistentComparator (comparator js sb) recs
         \<longrightarrow> sortedStable (comparator js sb) recs (applySorting js p recs)"
  shows "(\<forall>a b. recordGet js a (sortColumn sb) = recordGet js b (sortColumn sb)
                \<longrightarrow> comparator js sb a b = 0)
       \<and> consistentComparator (comparator js sb) recs
       \<and> applySorting js p recs = insertionSort (comparator js sb) recs
       \<and> (\<forall>a b. recordGet js a (sortColumn sb) = recordGet js b (sortColumn sb)
                \<longrightarrow> filter (\<lambda>r. r = a \<or> r = b) (applySorting js p recs)
                      = filter (\<lambda>r. r = a \<or> r = b) recs)
       \<and> (applyGrouping js p (applyFilters js p rows) = Inr recs \<longrightarrow>
            executeDataOperations js rows p
              = Inr \<lparr>plan = p,
                     resultCount = length (applyLimit js p (insertionSort (comparator js sb) recs)),
                     results = applyLimit js p (insertionSort (comparator js sb) recs)\<rparr>)"
proof -
  have tie: "\<forall>a b. recordGet js a (sortColumn sb) = recordGet js b (sortColumn sb)
                \<longrightarrow> comparator js sb a b = 0"
    by (simp add: comparator_same_key)
  have c: "consistentComparator (comparator js sb) recs"
    by (rule comparator_consistent [OF assms(2)])
  with assms(3) have "sortedStable (comparator js sb) recs (applySorting js p recs)"
    by simp
  then have fixed: "applySorting js p recs = insertionSort (comparator js sb) recs"
    by (rule sortedStable_insertionSort [OF c])
  have kept: "filter (\<lambda>r. r = a \<or> r = b) (applySorting js p recs)
                = filter (\<lambda>r. r = a \<or> r = b) recs"
    if k: "recordGet js a (sortColumn sb) = recordGet js b (sortColumn sb)" for a b
    unfolding fixed
  proof (rule insertionSort_filter)
    fix x y assume "x = a \<or> x = b" and "y = a \<or> y = b"
    then have "recordGet js x (sortColumn sb) = recordGet js y (sortColumn sb)"
      using k by auto
    then show "comparator js sb x y \<le> 0"
      by (simp add: comparator_same_key)
  qed
  have whole: "executeDataOperations js rows p
              = Inr \<lparr>plan = p,
                     resultCount = length (applyLimit js p (insertionSort (comparator js sb) recs)),
                     results = applyLimit js p (insertionSort (comparator js sb) recs)\<rparr>"
    if "applyGrouping js p (applyFilters js p rows) = Inr recs"
    using executeDataOperations_limit [OF that] fixed by simp
  show ?thesis
    using tie c fixed kept whole by blast
qed

text \<open>
  Sorting the example rows by \<open>Status\<close>: the two rows with status 404 keep their order.
\<close>

theorem sort_fixed_when_keys_present_witness:
  "sortBy (plainPlan\<lparr>sortBy := Some byStatus\<rparr>) = Some byStatus
   \<and> map (\<lambda>r. recordGet exampleBuiltins r (sortColumn byStatus)) (map Row exampleRows)
        = [JStr ''200'', JStr ''404'', JStr ''301'', JStr ''404'']
   \<and> sortedStable (comparator exampleBuiltins byStatus) (map Row exampleRows)
        (applySorting exampleBuiltins (plainPlan\<lparr>sortBy := Some byStatus\<rparr>) (map Row exampleRows))
   \<and> consistentComparator (comparator exampleBuiltins byStatus) (map Row exampleRows)
   \<and> applySorting exampleBuiltins (plainPlan\<lparr>sortBy := Some byStatus\<rparr>) (map Row exampleRows)
        = [Row rowA, Row rowC, Row rowB, Row rowD]
   \<and> filter (\<lambda>r. r = Row rowB \<or> r = Row rowD)
        (applySorting exampleBuiltins (plainPlan\<lparr>sortBy := Some byStatus\<rparr>) (map Row exampleRows))
        = [Row rowB, Row rowD]
   \<and> executeDataOperations exampleBuiltins exampleRows (plainPlan\<lparr>sortBy := Some byStatus\<rparr>)
        = Inr \<lparr>plan = plainPlan\<lparr>sortBy := Some byStatus\<rparr>, resultCount = 4,
               results = [Row rowA, Row rowC, Row rowB, Row rowD]\<rparr>"
proof -
  let ?p = "plainPlan\<lparr>sortBy := Some byStatus\<rparr>"
  let ?recs = "map Row exampleRows"
  have a: "sortBy ?p = Some byStatus"
    by simp
  have keys: "map (\<lambda>r. recordGet exampleBuiltins r (sortColumn byStatus)) ?recs
                = [JStr ''200'', JStr ''404'', JStr ''301'', JStr ''404'']"
    by code_simp
  have "\<forall>v\<in>set (map (\<lambda>r. recordGet exampleBuiltins r (sortColumn byStatus)) ?recs). \<exists>s. v = JStr s"
    unfolding keys by simp
  then have b: "\<forall>r\<in>set ?recs. \<exists>s. recordGet exampleBuiltins r (sortColumn byStatus) = JStr s"
    by simp
  have c: "sortedStable (comparator exampleBuiltins byStatus) ?recs (applySorting exampleBuiltins ?p ?recs)"
    by code_simp
  have same: "recordGet exampleBuiltins (Row rowB) (sortColumn byStatus)
                = recordGet exampleBuiltins (Row rowD) (sortColumn byStatus)"
    by code_simp
  have ins: "insertionSort (comparator exampleBuiltins byStatus) ?recs
               = [Row rowA, Row rowC, Row rowB, Row rowD]"
    by code_simp
  have before: "filter (\<lambda>r. r = Row rowB \<or> r = Row rowD) ?recs = [Row rowB, Row rowD]"
    by code_simp
  have grouped: "applyGrouping exampleBuiltins ?p (applyFilters exampleBuiltins ?p exampleRows) = Inr ?recs"
    by (simp add: applyGrouping_def applyFilters_def plainPlan_def)
  have unlimited: "applyLimit exampleBuiltins ?p [Row rowA, Row rowC, Row rowB, Row rowD]
                     = [Row rowA, Row rowC, Row rowB, Row rowD]"
    by (simp add: applyLimit_def truthy_def plainPlan_def)
  have t: "consistentComparator (comparator exampleBuiltins byStatus) ?recs
       \<and> applySorting exampleBuiltins ?p ?recs = insertionSort (comparator exampleBuiltins byStatus) ?recs
       \<and> (\<forall>a b. recordGet exampleBuiltins a (sortColumn byStatus)
                  = recordGet exampleBuiltins b (sortColumn byStatus)
                \<longrightarrow> filter (\<lambda>r. r = a \<or> r = b) (applySorting exampleBuiltins ?p ?recs)
                      = filter (\<lambda>r. r = a \<or> r = b) ?recs)
       \<and> executeDataOperations exampleBuiltins exampleRows ?p
              = Inr \<lparr>plan = ?p,
                     resultCount = length (applyLimit exampleBuiltins ?p
                                     (insertionSort (comparator exampleBuiltins byStatus) ?recs)),
                     results = applyLimit exampleBuiltins ?p
                                 (insertionSort (comparator exampleBuiltins byStatus) ?recs)\<rparr>"
    using sort_fixed_when_keys_present [of ?p byStatus ?recs exampleBuiltins exampleRows] a b c grouped
    by blast
  from t have "executeDataOperations exampleBuiltins exampleRows ?p
              = Inr \<lparr>plan = ?p,
                     resultCount = length (applyLimit exampleBuiltins ?p
                                     (insertionSort (comparator exampleBuiltins byStatus) ?recs)),
                     results = applyLimit exampleBuiltins ?p
                                 (insertionSort (comparator exampleBuiltins byStatus) ?recs)\<rparr>"
    by blast
  then have c4: "executeDataOperations exampleBuiltins exampleRows ?p
        = Inr \<lparr>plan = ?p, resultCount = 4, results = [Row rowA, Row rowC, Row rowB, Row rowD]\<rparr>"
    unfolding ins unlimited by simp
  from t have c1: "consistentComparator (comparator exampleBuiltins byStatus) ?recs"
    by blast
  from t ins have c2: "applySorting exampleBuiltins ?p ?recs = [Row rowA, Row rowC, Row rowB, Row rowD]"
    by (simp only:)
  from t same
  have "filter (\<lambda>r. r = Row rowB \<or> r = Row rowD) (applySorting exampleBuiltins ?p ?recs)
          = filter (\<lambda>r. r = Row rowB \<or> r = Row rowD) ?recs"
    by blast
  with before
  have c3: "filter (\<lambda>r. r = Row rowB \<or> r = Row rowD) (applySorting exampleBuiltins ?p ?recs)
              = [Row rowB, Row rowD]"
    by (simp only:)
  show ?thesis
    by (intro conjI) (rule a keys c c1 c2 c3 c4)+
qed

text \<open>
  The claim C8 as it stands fails where a record lacks the sort column.  Of four pages
  with hits 3, 2, none and 1, the third has \<open>undefined\<close> under \<open>Hits\<close>, which is neither
  greater nor less than any string: the comparator returns 0 for it against every other
  page, although it orders the other three, so it is not consistent.  The comparator
  ties \<open>/c\<close> with \<open>/d\<close> and \<open>/c\<close> stands before \<open>/d\<close>; in the result \<open>/d\<close> stands
  before \<open>/c\<close>.
\<close>

theorem sort_ties_counterexample:
  "comparator exampleBuiltins byHits (Row pageC) (Row pageD) = 0
   \<and> filter (\<lambda>r. r = Row pageC \<or> r = Row pageD) [Row pageA, Row pageB, Row pageC, Row pageD]
       = [Row pageC, Row pageD]
   \<and> applySorting exampleBuiltins (plainPlan\<lparr>sortBy := Some byHits\<rparr>)
        [Row pageA, Row pageB, Row pageC, Row pageD]
       = [Row pageD, Row pageB, Row pageA, Row pageC]
   \<and> filter (\<lambda>r. r = Row pageC \<or> r = Row pageD)
        (applySorting exampleBuiltins (plainPlan\<lparr>sortBy := Some byHits\<rparr>)
           [Row pageA, Row pageB, Row pageC, Row pageD])
       = [Row pageD, Row pageC]
   \<and> executeDataOperations exampleBuiltins [pageA, pageB, pageC, pageD]
        (plainPlan\<lparr>sortBy := Some byHits\<rparr>)
       = Inr \<lparr>plan = plainPlan\<lparr>sortBy := Some byHits\<rparr>, resultCount = 4,
              results = [Row pageD, Row pageB, Row pageA, Row pageC]\<rparr>"
  by code_simp

subsection \<open>The limit step\<close>










section \<open>Properties of the gateway\<close>

lemma natToString_3: "natToString 3 = ''3''"
  by code_simp

lemma chatLoop_exhausted:
  "\<not> attempt < MAX_RETRIES \<Longrightarrow>
   chatLoop fetch attempt lastError slept =
     \<lparr>outcome = Inl (''LiteLLM failed after 3 attempts: ''
                     @ (case lastError of None \<Rightarrow> ''undefined'' | Some m \<Rightarrow> m)),
      attempts = attempt, delays = slept\<rparr>"
  by (subst chatLoop.simps) (simp add: MAX_RETRIES_def natToString_3)

lemma chatLoop_rate_limited:
  "attempt < MAX_RETRIES \<Longrightarrow> tryAttempt (fetch attempt) = RateLimited \<Longrightarrow>
   chatLoop fetch attempt lastError slept
     = chatLoop fetch (Suc attempt) lastError (slept @ [backoffTime attempt])"
  by (subst chatLoop.simps) simp

lemma chatLoop_thrown:
  "attempt < MAX_RETRIES \<Longrightarrow> tryAttempt (fetch attempt) = Thrown m \<Longrightarrow>
   chatLoop fetch attempt lastError slept
     = chatLoop fetch (Suc attempt) (Some m)
         (if attempt < MAX_RETRIES - 1 then slept @ [backoffTime attempt] else slept)"
  by (subst chatLoop.simps) simp

lemma chatLoop_returned:
  "attempt < MAX_RETRIES \<Longrightarrow> tryAttempt (fetch attempt) = Returned t \<Longrightarrow>
   chatLoop fetch attempt lastError slept
     = \<lparr>outcome = Inr t, attempts = Suc attempt, delays = slept\<rparr>"
  by (subst chatLoop.simps) simp

text \<open>The part of C6 that the code keeps: \<open>fetch\<close> is called at most three times.\<close>

lemma chatLoop_attempts_le:
  "attempt \<le> MAX_RETRIES \<Longrightarrow> attempts (chatLoop fetch attempt lastError slept) \<le> MAX_RETRIES"
proof (induction fetch attempt lastError slept rule: chatLoop.induct)
  case (1 fetch attempt lastError slept)
  show ?case
  proof (cases "attempt < MAX_RETRIES")
    case False
    with 1 show ?thesis by (subst chatLoop.simps) simp
  next
    case True
    show ?thesis
    proof (cases "tryAttempt (fetch attempt)")
      case (Returned t)
      with True show ?thesis by (simp add: chatLoop_returned)
    next
      case RateLimited
      with True 1 show ?thesis by (simp add: chatLoop_rate_limited)
    next
      case (Thrown m)
      with True 1 show ?thesis by (simp add: chatLoop_thrown)
    qed
  qed
qed

lemma gateway_attempts_bounded: "attempts (gatewayChat fetch) \<le> 3"
  using chatLoop_attempts_le [of 0 fetch None "[]"] by (simp add: gatewayChat_def MAX_RETRIES_def)

text \<open>
  When no attempt returns and the third one throws, the error of \<open>chat\<close> embeds the
  count and the message of that last error.
\<close>

lemma gateway_last_thrown_embedded:
  assumes "\<And>i t. tryAttempt (fetch i) \<noteq> Returned t"
    and "tryAttempt (fetch 2) = Thrown m"
  shows "outcome (gatewayChat fetch) = Inl (''LiteLLM failed after 3 attempts: '' @ m)
         \<and> attempts (gatewayChat fetch) = 3"
proof -
  have step: "\<exists>le sl. chatLoop fetch i l s = chatLoop fetch (Suc i) le sl" if "i < 3" for i l s
  proof (cases "tryAttempt (fetch i)")
    case (Returned t)
    with assms(1) show ?thesis by blast
  next
    case RateLimited
    with that show ?thesis using chatLoop_rate_limited [of i fetch l s] by (auto simp: MAX_RETRIES_def)
  next
    case (Thrown e)
    with that show ?thesis using chatLoop_thrown [of i fetch e l s] by (auto simp: MAX_RETRIES_def)
  qed
  obtain l1 s1 where a: "chatLoop fetch 0 None [] = chatLoop fetch (Suc 0) l1 s1"
    using step [of 0 None "[]"] by auto
  obtain l2 s2 where b: "chatLoop fetch (Suc 0) l1 s1 = chatLoop fetch (Suc (Suc 0)) l2 s2"
    using step [of "Suc 0" l1 s1] by auto
  have two: "Suc (Suc 0) = 2" by simp
  have c: "chatLoop fetch (Suc (Suc 0)) l2 s2 = chatLoop fetch (Suc (Suc (Suc 0))) (Some m) s2"
    by (subst chatLoop_thrown [where m = m]) (simp_all add: assms(2) two MAX_RETRIES_def)
  have d: "chatLoop fetch (Suc (Suc (Suc 0))) (Some m) s2 =
      \<lparr>outcome = Inl (''LiteLLM failed after 3 attempts: '' @ m), attempts = 3, delays = s2\<rparr>"
    by (subst chatLoop_exhausted) (simp_all add: MAX_RETRIES_def)
  show ?thesis
    unfolding gatewayChat_def a b c d by simp
qed

text \<open>A reply without content makes \<open>chat\<close> return the empty string.\<close>

lemma gateway_empty_content:
  "gatewayChat (\<lambda>attempt. Resolves \<lparr>status = 200, bodyText = [], bodyJson = Inr None\<rparr>)
     = \<lparr>outcome = Inr [], attempts = 1, delays = []\<rparr>"
  unfolding gatewayChat_def
  by (subst chatLoop_returned [where t = "[]"])
     (simp_all add: MAX_RETRIES_def tryAttempt_def responseOk_def)

text \<open>
  C6 at three rate-limit responses.  \<open>chat\<close> calls \<open>fetch\<close> three times, waits 1000,
  2000 and 4000 milliseconds, and throws; the branch for status 429 never sets
  \<open>lastError\<close>, so the message ends in \<open>undefined\<close> and embeds no underlying error.
\<close>

theorem gateway_rate_limited_thrice:
  "gatewayChat rateLimited
     = \<lparr>outcome = Inl ''LiteLLM failed after 3 attempts: undefined'',
        attempts = 3, delays = [1000, 2000, 4000]\<rparr>"
proof -
  have limited: "tryAttempt (rateLimited i) = RateLimited" for i
    by (simp add: tryAttempt_def rateLimited_def)
  have s0: "chatLoop rateLimited 0 None [] = chatLoop rateLimited (Suc 0) None [1000]"
    by (subst chatLoop_rate_limited)
       (simp_all add: limited MAX_RETRIES_def backoffTime_def INITIAL_BACKOFF_def)
  have s1: "chatLoop rateLimited (Suc 0) None [1000]
              = chatLoop rateLimited (Suc (Suc 0)) None [1000, 2000]"
    by (subst chatLoop_rate_limited)
       (simp_all add: limited MAX_RETRIES_def backoffTime_def INITIAL_BACKOFF_def)
  have s2: "chatLoop rateLimited (Suc (Suc 0)) None [1000, 2000]
              = chatLoop rateLimited (Suc (Suc (Suc 0))) None [1000, 2000, 4000]"
    by (subst chatLoop_rate_limited)
       (simp_all add: limited MAX_RETRIES_def backoffTime_def INITIAL_BACKOFF_def)
  have s3: "chatLoop rateLimited (Suc (Suc (Suc 0))) None [1000, 2000, 4000]
              = \<lparr>outcome = Inl ''LiteLLM failed after 3 attempts: undefined'',
                 attempts = 3, delays = [1000, 2000, 4000]\<rparr>"
    by (subst chatLoop_exhausted) (simp_all add: MAX_RETRIES_def)
  show ?thesis
    unfolding gatewayChat_def s0 s1 s2 s3 ..
qed

section \<open>Properties of the agents\<close>

lemma andThen_alt:
  "andThen m f =
     (case fst m of
        Inl e \<Rightarrow> (Inl e, snd m)
      | Inr a \<Rightarrow> (fst (f a), snd m @ snd (f a)))"
  by (cases m; cases "fst m") (auto simp: andThen_def split: prod.splits)

lemma analyticsProcessQuery_alt:
  "analyticsProcessQuery w q =
     (case fst (analyticsSteps w q) of
        Inr (ga4Data, expl) \<Rightarrow>
          (\<lparr>success = True, data = Some ga4Data, explanation = expl, error = None\<rparr>,
           snd (analyticsSteps w q))
      | Inl m \<Rightarrow>
          (\<lparr>success = False, data = None,
            explanation = ''Failed to process analytics query: '' @ m, error = Some m\<rparr>,
           snd (analyticsSteps w q)))"
  by (cases "analyticsSteps w q"; cases "fst (analyticsSteps w q)")
     (auto simp: analyticsProcessQuery_def)

lemma seoProcessQuery_alt:
  "seoProcessQuery w s =
     (case fst (seoSteps w s) of
        Inr (res, expl) \<Rightarrow>
          (\<lparr>success = True, data = Some res, explanation = expl, error = None\<rparr>,
           snd (seoSteps w s))
      | Inl n \<Rightarrow>
          (\<lparr>success = False, data = None,
            explanation = ''Failed to process SEO query: '' @ n, error = Some n\<rparr>,
           snd (seoSteps w s)))"
  by (cases "seoSteps w s"; cases "fst (seoSteps w s)")
     (auto simp: seoProcessQuery_def)

lemma fst_andThen_Inl_iff:
  "fst (andThen m f) = Inl e \<longleftrightarrow> fst m = Inl e \<or> (\<exists>a. fst m = Inr a \<and> fst (f a) = Inl e)"
  by (cases "fst m") (auto simp: andThen_alt)

lemma snd_andThen_list_all:
  "list_all P (snd m) \<Longrightarrow> (\<And>a. list_all P (snd (f a))) \<Longrightarrow> list_all P (snd (andThen m f))"
  by (cases "fst m") (auto simp: andThen_alt)

subsection \<open>Validation before the fetch\<close>

lemma snd_inferReportingPlan:
  "snd (inferReportingPlan w q) = [ChatCall (ReportingPlanPrompt q)]"
  by (cases "chat w (ReportingPlanPrompt q)")
     (auto simp: inferReportingPlan_def andThen_alt callChat_def split: option.splits)

lemma validateLoop_invalid:
  "\<exists>x\<in>set xs. x \<notin> set allowed \<Longrightarrow>
   \<exists>x. x \<in> set xs \<and> x \<notin> set allowed \<and>
       validateLoop kind allowed xs
         = Inl (''Invalid '' @ kind @ '': '' @ x @ ''. Must be one of: '' @ joinStrings '', '' allowed)"
  by (induction xs) auto

lemma validateLoop_valid: "set xs \<subseteq> set allowed \<Longrightarrow> validateLoop kind allowed xs = Inr ()"
  by (induction xs) auto

lemma validateFields_invalid:
  assumes "(\<exists>m\<in>set (fieldOrEmpty (metrics p)). m \<notin> set VALID_METRICS)
           \<or> (\<exists>d\<in>set (fieldOrEmpty (dimensions p)). d \<notin> set VALID_DIMENSIONS)"
  shows "\<exists>kind allowed x.
           ((kind = ''metric'' \<and> allowed = VALID_METRICS \<and> x \<in> set (fieldOrEmpty (metrics p)))
            \<or> (kind = ''dimension'' \<and> allowed = VALID_DIMENSIONS \<and> x \<in> set (fieldOrEmpty (dimensions p))))
           \<and> x \<notin> set allowed
           \<and> validateFields p
                = Inl (''Invalid '' @ kind @ '': '' @ x @ ''. Must be one of: '' @ joinStrings '', '' allowed)"
proof (cases "\<exists>m\<in>set (fieldOrEmpty (metrics p)). m \<notin> set VALID_METRICS")
  case True
  from validateLoop_invalid [OF True, of "''metric''"]
  obtain x where x: "x \<in> set (fieldOrEmpty (metrics p))" "x \<notin> set VALID_METRICS"
    "validateLoop ''metric'' VALID_METRICS (fieldOrEmpty (metrics p))
       = Inl (''Invalid '' @ ''metric'' @ '': '' @ x @ ''. Must be one of: '' @ joinStrings '', '' VALID_METRICS)"
    by blast
  then have "validateFields p
       = Inl (''Invalid '' @ ''metric'' @ '': '' @ x @ ''. Must be one of: '' @ joinStrings '', '' VALID_METRICS)"
    by (simp add: validateFields_def)
  with x show ?thesis by blast
next
  case False
  then have ok: "validateLoop ''metric'' VALID_METRICS (fieldOrEmpty (metrics p)) = Inr ()"
    by (intro validateLoop_valid) auto
  from False assms have "\<exists>d\<in>set (fieldOrEmpty (dimensions p)). d \<notin> set VALID_DIMENSIONS" by blast
  from validateLoop_invalid [OF this, of "''dimension''"]
  obtain x where x: "x \<in> set (fieldOrEmpty (dimensions p))" "x \<notin> set VALID_DIMENSIONS"
    "validateLoop ''dimension'' VALID_DIMENSIONS (fieldOrEmpty (dimensions p))
       = Inl (''Invalid '' @ ''dimension'' @ '': '' @ x @ ''. Must be one of: '' @ joinStrings '', '' VALID_DIMENSIONS)"
    by blast
  then have "validateFields p
       = Inl (''Invalid '' @ ''dimension'' @ '': '' @ x @ ''. Must be one of: '' @ joinStrings '', '' VALID_DIMENSIONS)"
    using ok by (simp add: validateFields_def)
  with x show ?thesis by blast
qed

lemma analyticsSteps_validation_fails:
  assumes "fst (inferReportingPlan w (aQuery q)) = Inr p" and "validateFields p = Inl msg"
  shows "analyticsSteps w q = (Inl msg, [ChatCall (ReportingPlanPrompt (aQuery q))])"
  using assms snd_inferReportingPlan [of w "aQuery q"]
  by (simp add: analyticsSteps_def andThen_alt)

text \<open>
  C1.  When the plan inferred for a query names a metric outside \<open>VALID_METRICS\<close> or a
  dimension outside \<open>VALID_DIMENSIONS\<close>, \<open>validateFields\<close> throws an error whose message
  names one such field of the plan and lists the permitted names; \<open>processQuery\<close>
  returns the failure result carrying that message; and the only call that left the
  process is the chat call of the plan inference: the GA4 report is never requested.
\<close>

theorem invalid_plan_never_fetched:
  assumes "fst (inferReportingPlan w (aQuery q)) = Inr p"
    and "(\<exists>m\<in>set (fieldOrEmpty (metrics p)). m \<notin> set VALID_METRICS)
         \<or> (\<exists>d\<in>set (fieldOrEmpty (dimensions p)). d \<notin> set VALID_DIMENSIONS)"
  shows "\<exists>kind allowed x msg.
           ((kind = ''metric'' \<and> allowed = VALID_METRICS \<and> x \<in> set (fieldOrEmpty (metrics p)))
            \<or> (kind = ''dimension'' \<and> allowed = VALID_DIMENSIONS \<and> x \<in> set (fieldOrEmpty (dimensions p))))
           \<and> x \<notin> set allowed
           \<and> msg = ''Invalid '' @ kind @ '': '' @ x @ ''. Must be one of: '' @ joinStrings '', '' allowed
           \<and> validateFields p = Inl msg
           \<and> fst (analyticsProcessQuery w q)
                = \<lparr>success = False, data = None,
                   explanation = ''Failed to process analytics query: '' @ msg, error = Some msg\<rparr>
           \<and> snd (analyticsProcessQuery w q) = [ChatCall (ReportingPlanPrompt (aQuery q))]
           \<and> (\<forall>pid pl. RunReport pid pl \<notin> set (snd (analyticsProcessQuery w q)))"
proof -
  from validateFields_invalid [OF assms(2)]
  obtain kind allowed x where k:
    "(kind = ''metric'' \<and> allowed = VALID_METRICS \<and> x \<in> set (fieldOrEmpty (metrics p)))
      \<or> (kind = ''dimension'' \<and> allowed = VALID_DIMENSIONS \<and> x \<in> set (fieldOrEmpty (dimensions p)))"
    "x \<notin> set allowed"
    "validateFields p
       = Inl (''Invalid '' @ kind @ '': '' @ x @ ''. Must be one of: '' @ joinStrings '', '' allowed)"
    by blast
  let ?msg = "''Invalid '' @ kind @ '': '' @ x @ ''. Must be one of: '' @ joinStrings '', '' allowed"
  have steps: "analyticsSteps w q = (Inl ?msg, [ChatCall (ReportingPlanPrompt (aQuery q))])"
    using analyticsSteps_validation_fails [OF assms(1) k(3)] .
  have res: "analyticsProcessQuery w q
      = (\<lparr>success = False, data = None,
          explanation = ''Failed to process analytics query: '' @ ?msg, error = Some ?msg\<rparr>,
         [ChatCall (ReportingPlanPrompt (aQuery q))])"
    by (simp add: analyticsProcessQuery_alt steps)
  show ?thesis
    using k res by (intro exI [of _ kind] exI [of _ allowed] exI [of _ x] exI [of _ ?msg]) simp
qed


theorem invalid_plan_never_fetched_witness:
  "fst (inferReportingPlan (exampleEnv ''analytics'' []) (aQuery exampleAnalyticsQuery))
     = Inr exampleReportingPlan
   \<and> ''pageviews'' \<in> set (fieldOrEmpty (metrics exampleReportingPlan))
   \<and> ''pageviews'' \<notin> set VALID_METRICS
   \<and> snd (analyticsProcessQuery (exampleEnv ''analytics'' []) exampleAnalyticsQuery)
       = [ChatCall (ReportingPlanPrompt (aQuery exampleAnalyticsQuery))]
   \<and> error (fst (analyticsProcessQuery (exampleEnv ''analytics'' []) exampleAnalyticsQuery))
       = Some (''Invalid metric: pageviews. Must be one of: '' @ joinStrings '', '' VALID_METRICS)"
proof -
  let ?w = "exampleEnv ''analytics'' []"
  have a: "fst (inferReportingPlan ?w (aQuery exampleAnalyticsQuery)) = Inr exampleReportingPlan"
    by code_simp
  have b: "''pageviews'' \<in> set (fieldOrEmpty (metrics exampleReportingPlan))"
    by (simp add: exampleReportingPlan_def fieldOrEmpty_def)
  have c: "''pageviews'' \<notin> set VALID_METRICS"
    by (simp add: VALID_METRICS_def)
  have bad: "(\<exists>m\<in>set (fieldOrEmpty (metrics exampleReportingPlan)). m \<notin> set VALID_METRICS)
         \<or> (\<exists>d\<in>set (fieldOrEmpty (dimensions exampleReportingPlan)). d \<notin> set VALID_DIMENSIONS)"
    using b c by blast
  have calls: "snd (analyticsProcessQuery ?w exampleAnalyticsQuery)
       = [ChatCall (ReportingPlanPrompt (aQuery exampleAnalyticsQuery))]"
    using invalid_plan_never_fetched [OF a bad] by blast
  have msg: "error (fst (analyticsProcessQuery ?w exampleAnalyticsQuery))
       = Some (''Invalid metric: pageviews. Must be one of: '' @ joinStrings '', '' VALID_METRICS)"
    by code_simp
  show ?thesis
    using a b c calls msg by simp
qed

subsection \<open>Errors inside the agents\<close>

lemma analyticsSteps_Inl_iff:
  "fst (analyticsSteps w q) = Inl m \<longleftrightarrow>
     fst (inferReportingPlan w (aQuery q)) = Inl m
     \<or> (\<exists>p. fst (inferReportingPlan w (aQuery q)) = Inr p \<and>
          (validateFields p = Inl m
           \<or> (validateFields p = Inr () \<and>
               (runReport w (aPropertyId q) p = Inl m
                \<or> (\<exists>d. runReport w (aPropertyId q) p = Inr d \<and>
                      fst (generateExplanation w (aQuery q) p d) = Inl m)))))"
  by (auto simp: analyticsSteps_def fst_andThen_Inl_iff executeGA4Query_def)

lemma seoSteps_Inl_iff:
  "fst (seoSteps w s) = Inl n \<longleftrightarrow>
     fst (ensureInitialized w) = Inl n
     \<or> (fst (ensureInitialized w) = Inr () \<and>
        (fst (resolveSpreadsheetId w s) = Inl n
         \<or> (\<exists>i. fst (resolveSpreadsheetId w s) = Inr i \<and>
              (loadSheet w i = Inl n
               \<or> (\<exists>rows. loadSheet w i = Inr rows \<and>
                     (fst (inferDataPlan w (sQuery s) rows) = Inl n
                      \<or> (\<exists>p. fst (inferDataPlan w (sQuery s) rows) = Inr p \<and>
                            (executeDataOperations (runtime w) rows p = Inl n
                             \<or> (\<exists>res. executeDataOperations (runtime w) rows p = Inr res \<and>
                                   chat w (SEOExplanationPrompt (sQuery s) res) = Inl n)))))))))"
  by (auto simp: seoSteps_def fst_andThen_Inl_iff loadSpreadsheetData_def
      seoGenerateExplanation_def callChat_def)

text \<open>
  C7.  Each agent's \<open>processQuery\<close> always returns a result, and the result is either
  a success with data and no error, or the failure
  \<open>{success: false, explanation: prefix + message, error: message}\<close>.  The steps of the
  analytics agent fail with message \<open>m\<close> exactly when the plan inference, the
  validation, the report or the explanation throws \<open>m\<close> (each after the steps before it
  succeeded), and the result is then the failure with \<open>m\<close>; the same holds for the SEO
  agent and its steps: initialisation, the spreadsheet id, the table load, the plan
  inference, the data operations and the explanation.
\<close>

theorem agent_errors_become_results:
  "(fst (analyticsSteps w q) = Inl m \<longrightarrow>
      fst (analyticsProcessQuery w q)
        = \<lparr>success = False, data = None,
           explanation = ''Failed to process analytics query: '' @ m, error = Some m\<rparr>)
   \<and> (fst (seoSteps w s) = Inl n \<longrightarrow>
      fst (seoProcessQuery w s)
        = \<lparr>success = False, data = None,
           explanation = ''Failed to process SEO query: '' @ n, error = Some n\<rparr>)
   \<and> (fst (analyticsSteps w q) = Inl m \<longleftrightarrow>
        fst (inferReportingPlan w (aQuery q)) = Inl m
        \<or> (\<exists>p. fst (inferReportingPlan w (aQuery q)) = Inr p \<and>
             (validateFields p = Inl m
              \<or> (validateFields p = Inr () \<and>
                  (runReport w (aPropertyId q) p = Inl m
                   \<or> (\<exists>d. runReport w (aPropertyId q) p = Inr d \<and>
                         fst (generateExplanation w (aQuery q) p d) = Inl m))))))
   \<and> (fst (seoSteps w s) = Inl n \<longleftrightarrow>
        fst (ensureInitialized w) = Inl n
        \<or> (fst (ensureInitialized w) = Inr () \<and>
           (fst (resolveSpreadsheetId w s) = Inl n
            \<or> (\<exists>i. fst (resolveSpreadsheetId w s) = Inr i \<and>
                 (loadSheet w i = Inl n
                  \<or> (\<exists>rows. loadSheet w i = Inr rows \<and>
                        (fst (inferDataPlan w (sQuery s) rows) = Inl n
                         \<or> (\<exists>p. fst (inferDataPlan w (sQuery s) rows) = Inr p \<and>
                               (executeDataOperations (runtime w) rows p = Inl n
                                \<or> (\<exists>res. executeDataOperations (runtime w) rows p = Inr res \<and>
                                      chat w (SEOExplanationPrompt (sQuery s) res) = Inl n))))))))))
   \<and> ((\<exists>d e. fst (analyticsProcessQuery w q)
                = \<lparr>success = True, data = Some d, explanation = e, error = None\<rparr>)
       \<or> (\<exists>e. fst (analyticsProcessQuery w q)
                = \<lparr>success = False, data = None,
                   explanation = ''Failed to process analytics query: '' @ e, error = Some e\<rparr>))
   \<and> ((\<exists>d e. fst (seoProcessQuery w s)
                = \<lparr>success = True, data = Some d, explanation = e, error = None\<rparr>)
       \<or> (\<exists>e. fst (seoProcessQuery w s)
                = \<lparr>success = False, data = None,
                   explanation = ''Failed to process SEO query: '' @ e, error = Some e\<rparr>))"
proof -
  have a: "(\<exists>d e. fst (analyticsProcessQuery w q)
                = \<lparr>success = True, data = Some d, explanation = e, error = None\<rparr>)
       \<or> (\<exists>e. fst (analyticsProcessQuery w q)
                = \<lparr>success = False, data = None,
                   explanation = ''Failed to process analytics query: '' @ e, error = Some e\<rparr>)"
    by (cases "fst (analyticsSteps w q)") (auto simp: analyticsProcessQuery_alt)
  have b: "(\<exists>d e. fst (seoProcessQuery w s)
                = \<lparr>success = True, data = Some d, explanation = e, error = None\<rparr>)
       \<or> (\<exists>e. fst (seoProcessQuery w s)
                = \<lparr>success = False, data = None,
                   explanation = ''Failed to process SEO query: '' @ e, error = Some e\<rparr>)"
    by (cases "fst (seoSteps w s)") (auto simp: seoProcessQuery_alt)
  have c: "fst (analyticsSteps w q) = Inl m \<longrightarrow>
      fst (analyticsProcessQuery w q)
        = \<lparr>success = False, data = None,
           explanation = ''Failed to process analytics query: '' @ m, error = Some m\<rparr>"
    by (simp add: analyticsProcessQuery_alt)
  have d: "fst (seoSteps w s) = Inl n \<longrightarrow>
      fst (seoProcessQuery w s)
        = \<lparr>success = False, data = None,
           explanation = ''Failed to process SEO query: '' @ n, error = Some n\<rparr>"
    by (simp add: seoProcessQuery_alt)
  show ?thesis
    using a b c d analyticsSteps_Inl_iff [of w q m] seoSteps_Inl_iff [of w s n] by blast
qed

theorem agent_errors_become_results_witness:
  "fst (analyticsSteps (exampleEnv ''analytics'' []) exampleAnalyticsQuery)
     = Inl (''Invalid metric: pageviews. Must be one of: '' @ joinStrings '', '' VALID_METRICS)
   \<and> fst (analyticsProcessQuery (exampleEnv ''analytics'' []) exampleAnalyticsQuery)
     = \<lparr>success = False, data = None,
        explanation = ''Failed to process analytics query: ''
           @ (''Invalid metric: pageviews. Must be one of: '' @ joinStrings '', '' VALID_METRICS),
        error = Some (''Invalid metric: pageviews. Must be one of: '' @ joinStrings '', '' VALID_METRICS)\<rparr>
   \<and> fst (seoSteps (exampleEnv ''analytics'' []) exampleSeoQuery)
     = Inl ''No spreadsheet ID provided. Set SEO_SPREADSHEET_ID or include in request.''
   \<and> fst (seoProcessQuery (exampleEnv ''analytics'' []) exampleSeoQuery)
     = \<lparr>success = False, data = None,
        explanation = ''Failed to process SEO query: ''
           @ ''No spreadsheet ID provided. Set SEO_SPREADSHEET_ID or include in request.'',
        error = Some ''No spreadsheet ID provided. Set SEO_SPREADSHEET_ID or include in request.''\<rparr>"
proof -
  let ?w = "exampleEnv ''analytics'' []"
  let ?m = "''Invalid metric: pageviews. Must be one of: '' @ joinStrings '', '' VALID_METRICS"
  let ?n = "''No spreadsheet ID provided. Set SEO_SPREADSHEET_ID or include in request.''"
  have a: "fst (analyticsSteps ?w exampleAnalyticsQuery) = Inl ?m"
    by code_simp
  have b: "fst (seoSteps ?w exampleSeoQuery) = Inl ?n"
    by code_simp
  show ?thesis
    using agent_errors_become_results [of ?w exampleAnalyticsQuery ?m exampleSeoQuery ?n] a b
    by simp
qed


section \<open>Properties of the orchestrator\<close>

text \<open>
  C3.  When the classifier's reply, trimmed and lower-cased, is none of \<open>analytics\<close>,
  \<open>seo\<close> and \<open>both\<close>, \<open>detectIntent\<close> returns an intent and does not throw: it
  returns \<open>analytics\<close> when a non-empty propertyId was given, whatever the question;
  otherwise \<open>seo\<close> when the lower-cased question contains \<open>seo\<close>, \<open>title\<close> or
  \<open>meta\<close>; otherwise \<open>analytics\<close>.
\<close>

theorem intent_fallback:
  assumes "chat w (IntentPrompt q (present pid)) = Inr reply"
    and "toLowerCase (trim reply) \<notin> {''analytics'', ''seo'', ''both''}"
  shows "fst (detectIntent w q pid)
           = Inr (if present pid then Analytics
                  else if (\<exists>pre post. toLowerCase q = pre @ ''seo'' @ post)
                          \<or> (\<exists>pre post. toLowerCase q = pre @ ''title'' @ post)
                          \<or> (\<exists>pre post. toLowerCase q = pre @ ''meta'' @ post)
                    then SEO
                  else Analytics)"
  using assms
  by (simp add: detectIntent_def andThen_alt callChat_def Let_def strIncludes_iff)

theorem intent_fallback_witness:
  "chat (exampleEnv ''Probably SEO.'' []) (IntentPrompt ''Check my TITLE tags'' (present None))
     = Inr ''Probably SEO.''
   \<and> toLowerCase (trim ''Probably SEO.'') \<notin> {''analytics'', ''seo'', ''both''}
   \<and> fst (detectIntent (exampleEnv ''Probably SEO.'' []) ''Check my TITLE tags'' None) = Inr SEO
   \<and> fst (detectIntent (exampleEnv ''Probably SEO.'' []) ''Check my TITLE tags'' (Some ''516821164''))
       = Inr Analytics"
proof -
  let ?w = "exampleEnv ''Probably SEO.'' []"
  have a: "chat ?w (IntentPrompt ''Check my TITLE tags'' b) = Inr ''Probably SEO.''" for b
    by (simp add: exampleEnv_def exampleChat_def)
  have b: "toLowerCase (trim ''Probably SEO.'') \<notin> {''analytics'', ''seo'', ''both''}"
    by code_simp
  have "strIncludes (toLowerCase ''Check my TITLE tags'') ''title''"
    by code_simp
  then have c: "\<exists>pre post. toLowerCase ''Check my TITLE tags'' = pre @ ''title'' @ post"
    by (simp only: strIncludes_iff)
  have none: "\<not> present None" and some: "present (Some ''516821164'')"
    by (simp_all add: present_def)
  have seo: "fst (detectIntent ?w ''Check my TITLE tags'' None) = Inr SEO"
    using intent_fallback [OF a b, of None] none c by simp
  have analytics: "fst (detectIntent ?w ''Check my TITLE tags'' (Some ''516821164'')) = Inr Analytics"
    using intent_fallback [OF a b, of "Some ''516821164''"] some by simp
  show ?thesis
    using a [of "present None"] b seo analytics by simp
qed

subsection \<open>The route to both agents without a propertyId\<close>

lemma ensureInitialized_calls: "list_all seoAgentCall (snd (ensureInitialized w))"
  by (simp add: ensureInitialized_def)

lemma resolveSpreadsheetId_calls: "list_all seoAgentCall (snd (resolveSpreadsheetId w s))"
  by (simp add: resolveSpreadsheetId_def Let_def split: option.splits)

lemma loadSpreadsheetData_calls: "list_all seoAgentCall (snd (loadSpreadsheetData w i))"
  by (simp add: loadSpreadsheetData_def seoAgentCall_def)

lemma inferDataPlan_calls: "list_all seoAgentCall (snd (inferDataPlan w q rows))"
  unfolding inferDataPlan_def Let_def
  by (intro snd_andThen_list_all) (auto simp: callChat_def seoAgentCall_def split: option.splits)

lemma seoGenerateExplanation_calls: "list_all seoAgentCall (snd (seoGenerateExplanation w q res))"
  by (simp add: seoGenerateExplanation_def callChat_def seoAgentCall_def)

lemma seoSteps_calls: "list_all seoAgentCall (snd (seoSteps w s))"
  unfolding seoSteps_def
  by (intro snd_andThen_list_all ensureInitialized_calls resolveSpreadsheetId_calls
        loadSpreadsheetData_calls inferDataPlan_calls seoGenerateExplanation_calls)
     simp_all

lemma seoProcessQuery_calls: "list_all seoAgentCall (snd (seoProcessQuery w s))"
  using seoSteps_calls [of w s]
  by (cases "fst (seoSteps w s)") (auto simp: seoProcessQuery_alt)

lemma seoAgentCall_not_analytics: "seoAgentCall e \<Longrightarrow> \<not> analyticsAgentCall e"
  by (cases e) (auto simp: seoAgentCall_def analyticsAgentCall_def split: prompt.splits)

lemma processQuery_alt:
  "processQuery w r =
     (case fst (orchestratorSteps w r) of
        Inr x \<Rightarrow> (x, snd (orchestratorSteps w r))
      | Inl m \<Rightarrow>
          (\<lparr>succeeded = False, response = ''Failed to process query: '' @ m,
            responseData = None,
            responseMeta = Some \<lparr>intent = ''unknown'', agentsUsed = []\<rparr>,
            responseError = Some m\<rparr>,
           snd (orchestratorSteps w r)))"
  by (cases "orchestratorSteps w r"; cases "fst (orchestratorSteps w r)")
     (auto simp: processQuery_def)

lemma routeToBoth_absent:
  assumes "\<not> present (propertyId r)"
  shows "routeToBoth w r =
     (let seoRun = seoProcessQuery w \<lparr>sQuery = query r, sSpreadsheetId = spreadsheetId r\<rparr>;
          ask = AggregatePrompt (query r) ''No propertyId provided'' (explanation (fst seoRun))
      in (case chat w ask of
            Inl e \<Rightarrow> Inl e
          | Inr t \<Rightarrow>
              Inr \<lparr>succeeded = False, response = t,
                   responseData = Some (BothData None (data (fst seoRun))),
                   responseMeta = None, responseError = None\<rparr>,
          snd seoRun @ [ChatCall ask]))"
  using assms
  by (cases "propertyId r")
     (auto simp: routeToBoth_def present_def Let_def aggregateResponses_def callChat_def
        split: sum.splits prod.splits)

text \<open>
  C2, as amended.  For a query whose intent is \<open>both\<close> and that has no (non-empty)
  propertyId, the orchestrator makes no call of the analytics agent and uses the result
  \<open>{success: false, explanation: "No propertyId provided", error: "Missing propertyId"}\<close>
  in its place; it runs the SEO agent; and it asks the gateway to aggregate the two
  explanations.  When that call returns a text, the response is that text, whatever it
  is, with success false, the SEO agent's data, and the metadata of intent \<open>both\<close>.
  When that call throws, the response is the orchestrator's failure
  \<open>Failed to process query: message\<close> with success false.
\<close>

theorem both_without_property:
  assumes "\<not> present (propertyId r)"
    and "fst (detectIntent w (query r) (propertyId r)) = Inr Both"
  shows "\<exists>seoResult seoCalls ask.
      seoProcessQuery w \<lparr>sQuery = query r, sSpreadsheetId = spreadsheetId r\<rparr> = (seoResult, seoCalls)
      \<and> ask = AggregatePrompt (query r) ''No propertyId provided'' (explanation seoResult)
      \<and> snd (processQuery w r)
           = ChatCall (IntentPrompt (query r) False) # seoCalls @ [ChatCall ask]
      \<and> \<not> list_ex analyticsAgentCall (snd (processQuery w r))
      \<and> (\<forall>t. chat w ask = Inr t \<longrightarrow>
            fst (processQuery w r)
              = \<lparr>succeeded = False, response = t,
                 responseData = Some (BothData None (data seoResult)),
                 responseMeta = Some \<lparr>intent = ''both'', agentsUsed = [''analytics'', ''seo'']\<rparr>,
                 responseError = None\<rparr>)
      \<and> (\<forall>e. chat w ask = Inl e \<longrightarrow>
            fst (processQuery w r)
              = \<lparr>succeeded = False, response = ''Failed to process query: '' @ e,
                 responseData = None,
                 responseMeta = Some \<lparr>intent = ''unknown'', agentsUsed = []\<rparr>,
                 responseError = Some e\<rparr>)"
proof -
  obtain seoResult seoCalls where
    seo: "seoProcessQuery w \<lparr>sQuery = query r, sSpreadsheetId = spreadsheetId r\<rparr> = (seoResult, seoCalls)"
    by (cases "seoProcessQuery w \<lparr>sQuery = query r, sSpreadsheetId = spreadsheetId r\<rparr>") auto
  let ?ask = "AggregatePrompt (query r) ''No propertyId provided'' (explanation seoResult)"
  have np: "present (propertyId r) = False" using assms(1) by simp
  have det: "snd (detectIntent w (query r) (propertyId r)) = [ChatCall (IntentPrompt (query r) False)]"
    by (cases "chat w (IntentPrompt (query r) False)")
       (auto simp: detectIntent_def np andThen_alt callChat_def Let_def)
  have both: "routeToBoth w r =
      (case chat w ?ask of
            Inl e \<Rightarrow> Inl e
          | Inr t \<Rightarrow>
              Inr \<lparr>succeeded = False, response = t,
                   responseData = Some (BothData None (data seoResult)),
                   responseMeta = None, responseError = None\<rparr>,
       seoCalls @ [ChatCall ?ask])"
    using routeToBoth_absent [OF assms(1), of w]
    by (cases "chat w ?ask") (simp_all add: seo Let_def)
  have steps: "orchestratorSteps w r =
      (case chat w ?ask of
            Inl e \<Rightarrow> Inl e
          | Inr t \<Rightarrow>
              Inr \<lparr>succeeded = False, response = t,
                   responseData = Some (BothData None (data seoResult)),
                   responseMeta = Some \<lparr>intent = ''both'', agentsUsed = [''analytics'', ''seo'']\<rparr>,
                   responseError = None\<rparr>,
       ChatCall (IntentPrompt (query r) False) # seoCalls @ [ChatCall ?ask])"
    using assms(2) det
    by (cases "chat w ?ask") (simp_all add: orchestratorSteps_def andThen_alt both intentName_def)
  have trace: "snd (processQuery w r) = ChatCall (IntentPrompt (query r) False) # seoCalls @ [ChatCall ?ask]"
    by (cases "chat w ?ask") (simp_all add: processQuery_alt steps)
  have "list_all seoAgentCall seoCalls"
    using seoProcessQuery_calls [of w "\<lparr>sQuery = query r, sSpreadsheetId = spreadsheetId r\<rparr>"]
    by (simp add: seo)
  then have "list_all (\<lambda>e. \<not> analyticsAgentCall e) seoCalls"
    by (simp add: list_all_iff seoAgentCall_not_analytics)
  then have quiet: "\<not> list_ex analyticsAgentCall (snd (processQuery w r))"
    by (simp add: trace list_ex_iff list_all_iff analyticsAgentCall_def)
  have ok: "\<forall>t. chat w ?ask = Inr t \<longrightarrow>
            fst (processQuery w r)
              = \<lparr>succeeded = False, response = t,
                 responseData = Some (BothData None (data seoResult)),
                 responseMeta = Some \<lparr>intent = ''both'', agentsUsed = [''analytics'', ''seo'']\<rparr>,
                 responseError = None\<rparr>"
    by (simp add: processQuery_alt steps)
  have bad: "\<forall>e. chat w ?ask = Inl e \<longrightarrow>
            fst (processQuery w r)
              = \<lparr>succeeded = False, response = ''Failed to process query: '' @ e,
                 responseData = None,
                 responseMeta = Some \<lparr>intent = ''unknown'', agentsUsed = []\<rparr>,
                 responseError = Some e\<rparr>"
    by (simp add: processQuery_alt steps)
  show ?thesis
    using seo trace quiet ok bad by blast
qed

theorem both_without_property_witness:
  "\<not> present (propertyId exampleRequest)
   \<and> fst (detectIntent (exampleEnv ''both'' ''Combined answer.'') (query exampleRequest)
            (propertyId exampleRequest)) = Inr Both
   \<and> \<not> list_ex analyticsAgentCall (snd (processQuery (exampleEnv ''both'' ''Combined answer.'') exampleRequest))
   \<and> response (fst (processQuery (exampleEnv ''both'' ''Combined answer.'') exampleRequest))
       = ''Combined answer.''
   \<and> \<not> succeeded (fst (processQuery (exampleEnv ''both'' ''Combined answer.'') exampleRequest))"
proof -
  let ?w = "exampleEnv ''both'' ''Combined answer.''"
  have a: "\<not> present (propertyId exampleRequest)"
    by (simp add: exampleRequest_def present_def)
  have b: "fst (detectIntent ?w (query exampleRequest) (propertyId exampleRequest)) = Inr Both"
    by code_simp
  have quiet: "\<not> list_ex analyticsAgentCall (snd (processQuery ?w exampleRequest))"
    using both_without_property [OF a b] by (elim exE conjE)
  have answer: "response (fst (processQuery ?w exampleRequest)) = ''Combined answer.''"
    by code_simp
  have failed: "\<not> succeeded (fst (processQuery ?w exampleRequest))"
    by code_simp
  show ?thesis
    using a b quiet answer failed by simp
qed

text \<open>
  The claim C2 as it stands fails where it promises a non-empty response text: the
  gateway returns the empty string when the model's reply has no content, and the
  orchestrator passes that on.
\<close>

theorem both_without_property_counterexample:
  "propertyId exampleRequest = None
   \<and> fst (detectIntent (exampleEnv ''both'' []) (query exampleRequest) (propertyId exampleRequest))
       = Inr Both
   \<and> response (fst (processQuery (exampleEnv ''both'' []) exampleRequest)) = []
   \<and> \<not> succeeded (fst (processQuery (exampleEnv ''both'' []) exampleRequest))"
  by code_simp

end
